theory Spec2Isabelle
  imports Main "HOL-Library.Word"
begin

unbundle bit_operations_syntax

section \<open>Machine integers and shared conventions\<close>

text \<open>
  The C sources compute in \<open>int\<close> (32 bits), \<open>uint8_t\<close>, \<open>uint32_t\<close> and
  \<open>uint64_t\<close>. Fixed-width values are words; counters that the code only
  increments, compares and uses as shift counts are \<open>nat\<close>; values whose sign matters
  in a test (\<open>while (n--)\<close>, \<open>n < 64\<close>) are \<open>int\<close>.
\<close>

type_synonym u8 = "8 word"
type_synonym u32 = "32 word"
type_synonym u64 = "64 word"

text \<open>
  What a run of the C code can end in without returning a value: a shift whose count
  is not smaller than the width of \<open>int\<close> (or is negative), a write past the end of
  an array, the use of a value that was never assigned, a read outside an array, and
  the use of a pointer into freed memory or of a null pointer.
\<close>

datatype c_error = Undefined_Shift | Buffer_Overrun | Indeterminate_Value | Out_Of_Bounds
  | Dangling_Pointer | Null_Pointer

text \<open>
  \<open>x << n\<close> on an \<open>int\<close>: the count must be smaller than 32; the result is the low
  32 bits of the product (two's complement, as gcc and clang compile it).
\<close>

definition shl_int :: "u32 \<Rightarrow> nat \<Rightarrow> c_error + u32" where
  "shl_int x n = (if 32 \<le> n then Inl Undefined_Shift else Inr (push_bit n x))"

section \<open>The EXI driver (exi\_parse.c)\<close>

datatype ParseState = PARSE_NEXT | PARSE_ELEMENT | PARSE_END | PARSE_INVALID

text \<open>
  The fields of \<open>Parser\<close> that the EXI primitives touch. \<open>mem\<close> is the memory the
  cursor \<open>ptr\<close> points into, \<open>end_p\<close> is \<open>p->end\<close>, \<open>pbit\<close> is \<open>p->bit\<close> (the bit
  offset inside the byte at \<open>ptr\<close>), \<open>ux\<close> the 64-bit accumulator of \<open>parse_uint\<close>
  and \<open>ux_n\<close> its shift, \<open>schemaId\<close> is \<open>p->schema->schemaId\<close>. A read is a read of
  \<open>mem\<close>, whatever the address; \<open>end_p\<close> only enters through \<open>need\<close>.
\<close>

record Parser =
  mem :: "nat \<Rightarrow> u8"
  ptr :: nat
  end_p :: nat
  pbit :: nat
  ux :: u64
  ux_n :: nat
  state :: ParseState
  schemaId :: "u8 list"

text \<open>\<open>need (p, n)\<close> leaves the function with 0 when \<open>(p->end - p->ptr) < n\<close>.\<close>

definition need :: "Parser \<Rightarrow> int \<Rightarrow> bool" where
  "need p n = (int (end_p p) - int (ptr p) < n)"

text \<open>
  \<open>parse_byte (&b, p)\<close>: the first argument is the content of \<open>b\<close> before the call,
  the result holds the return value, the content of \<open>b\<close> after it and the parser.
\<close>

definition parse_byte :: "u8 \<Rightarrow> Parser \<Rightarrow> c_error + (int \<times> u8 \<times> Parser)" where
  "parse_byte b p =
     (if pbit p \<noteq> 0 then
        if need p 2 then Inr (0, b, p)
        else if 8 < pbit p then Inl Undefined_Shift
        else
          let b1 = (ucast (push_bit (pbit p) (ucast (mem p (ptr p)) :: u32)) :: u8);
              p1 = p\<lparr>ptr := ptr p + 1\<rparr>;
              b2 = b1 OR drop_bit (8 - pbit p1) (mem p1 (ptr p1))
          in Inr (1, b2, p1)
      else
        if need p 1 then Inr (0, b, p)
        else Inr (1, mem p (ptr p), p\<lparr>ptr := ptr p + 1\<rparr>))"

text \<open>
  The loop of \<open>parse_uint\<close>. Each round reads one byte, so the bytes left before
  \<open>end_p\<close> bound the number of rounds.
\<close>

function parse_uint_loop :: "Parser \<Rightarrow> c_error + (int \<times> Parser)" where
  "parse_uint_loop p =
     (if ux_n p = 70 then Inr (0, p\<lparr>state := PARSE_INVALID\<rparr>)
      else
        case parse_byte 0 p of
          Inl e \<Rightarrow> Inl e
        | Inr (r, b, p1) \<Rightarrow>
            if r = 0 then Inr (0, p1)
            else
              case shl_int (ucast (b AND 0x7f)) (ux_n p1) of
                Inl e \<Rightarrow> Inl e
              | Inr v \<Rightarrow>
                  let p2 = p1\<lparr>ux := ux p1 OR scast v, ux_n := ux_n p1 + 7\<rparr>
                  in if b AND 0x80 \<noteq> 0 then parse_uint_loop p2
                     else Inr (1, p2\<lparr>ux_n := 0\<rparr>))"
  by pat_completeness auto
termination
proof (relation "measure (\<lambda>p. end_p p - ptr p)")
  show "wf (measure (\<lambda>p. end_p p - ptr p))" by simp
next
  fix p :: Parser and x2 r y b p1 v p2
  assume "parse_byte 0 p = Inr x2" "(r, y) = x2" "(b, p1) = y" "r \<noteq> 0"
    and "p2 = p1\<lparr>ux := ux p1 OR scast v, ux_n := ux_n p1 + 7\<rparr>"
  then have pb: "parse_byte 0 p = Inr (r, b, p1)" by simp
  with \<open>r \<noteq> 0\<close> have "ptr p1 = ptr p + 1 \<and> end_p p1 = end_p p \<and> ptr p < end_p p"
    by (auto simp: parse_byte_def need_def Let_def split: if_splits)
  with \<open>p2 = _\<close> show "(p2, p) \<in> measure (\<lambda>p. end_p p - ptr p)" by auto
qed

definition parse_uint :: "Parser \<Rightarrow> c_error + (int \<times> Parser)" where
  "parse_uint p = parse_uint_loop (if ux_n p = 0 then p\<lparr>ux := 0\<rparr> else p)"

text \<open>\<open>parse_bit (&bit, p)\<close>; the first argument is the content of \<open>bit\<close> before the call.\<close>

definition parse_bit :: "int \<Rightarrow> Parser \<Rightarrow> c_error + (int \<times> int \<times> Parser)" where
  "parse_bit b p =
     (if need p 1 then Inr (0, b, p)
      else if 7 < pbit p then Inl Undefined_Shift
      else
        let v = uint (drop_bit (7 - pbit p) (mem p (ptr p)) AND 1);
            p1 = p\<lparr>pbit := pbit p + 1\<rparr>;
            p2 = (if pbit p1 AND 8 \<noteq> 0 then p1\<lparr>ptr := ptr p1 + 1, pbit := 0\<rparr> else p1)
        in Inr (1, v, p2))"

text \<open>\<open>while (bytes--) bits = (bits << 8) | *(++p->ptr);\<close>\<close>

primrec fetch_bytes :: "nat \<Rightarrow> u32 \<Rightarrow> Parser \<Rightarrow> u32 \<times> Parser" where
  "fetch_bytes 0 bits p = (bits, p)"
| "fetch_bytes (Suc k) bits p =
     (let p1 = p\<lparr>ptr := ptr p + 1\<rparr>
      in fetch_bytes k (push_bit 8 bits OR ucast (mem p1 (ptr p1))) p1)"

text \<open>
  \<open>parse_bits (&result, p, n)\<close>. The byte at \<open>ptr\<close> is read before \<open>need\<close> is
  checked. The mask \<open>~(-1 << n)\<close> needs \<open>n < 32\<close>.
\<close>

definition parse_bits :: "u32 \<Rightarrow> Parser \<Rightarrow> nat \<Rightarrow> c_error + (int \<times> u32 \<times> Parser)" where
  "parse_bits result p n =
     (let bit0 = pbit p + n;
          bytes = drop_bit 3 bit0;
          bits0 = (ucast (mem p (ptr p)) :: u32);
          bit1 = bit0 AND 7
      in if need p (if bit1 \<noteq> 0 then int bytes + 1 else int bytes) then Inr (0, result, p)
         else
           let (bits, p2) = fetch_bytes bytes bits0 (p\<lparr>pbit := bit1\<rparr>)
           in case shl_int (- 1) n of
                Inl e \<Rightarrow> Inl e
              | Inr m \<Rightarrow> Inr (1, drop_bit (8 - bit1) bits AND NOT m, p2))"

text \<open>
  Modelled from the spec: \<open>utf8_encode (s, c)\<close> is defined in a file that is not
  under src/. Section 4.6: the driver re-encodes each code point to UTF-8. The result
  is the bytes written at \<open>s\<close>; the function returns the address after them.
\<close>

definition utf8_encode :: "nat \<Rightarrow> u8 list" where
  "utf8_encode c =
     (if c < 0x80 then [of_nat c]
      else if c < 0x800 then [0xC0 OR of_nat (c div 64), 0x80 OR of_nat (c mod 64)]
      else if c < 0x10000 then
        [0xE0 OR of_nat (c div 4096), 0x80 OR of_nat (c div 64 mod 64), 0x80 OR of_nat (c mod 64)]
      else
        [0xF0 OR of_nat (c div 262144 mod 8), 0x80 OR of_nat (c div 4096 mod 64),
         0x80 OR of_nat (c div 64 mod 64), 0x80 OR of_nat (c mod 64)])"

lemma utf8_encode_length: "0 < length (utf8_encode c)"
  by (simp add: utf8_encode_def)

text \<open>
  \<open>parse_literal (p, s, n)\<close>: \<open>while (n--) parse_uint (p), s = utf8_encode (s, p->ux);
  *s = '\0';\<close>. The second argument is what has been written to the array so far,
  \<open>cap\<close> is the size of the array (\<open>char schemaId[64]\<close> in the header). The return
  value of \<open>parse_uint\<close> is not looked at. The loop leaves when \<open>n\<close> reaches 0; from a
  negative \<open>n\<close> it does not get there before the array is full, and a write past the
  array ends the run.
\<close>

function parse_literal :: "Parser \<Rightarrow> u8 list \<Rightarrow> int \<Rightarrow> nat \<Rightarrow> c_error + (Parser \<times> u8 list)" where
  "parse_literal p s n cap =
     (if n = 0 then (if length s < cap then Inr (p, s) else Inl Buffer_Overrun)
      else
        case parse_uint p of
          Inl e \<Rightarrow> Inl e
        | Inr (r, p1) \<Rightarrow>
            let s1 = s @ utf8_encode (unat (ux p1))
            in if cap < length s1 then Inl Buffer_Overrun
               else parse_literal p1 s1 (n - 1) cap)"
  by pat_completeness auto
termination
proof (relation "measure (\<lambda>(p, s, n, cap). cap - length s)", goal_cases)
  case 1
  show ?case by simp
next
  case (2 p s n cap x2 r p1 s1)
  define k where "k = length (utf8_encode (unat (ux p1)))"
  have "0 < k" unfolding k_def by (rule utf8_encode_length)
  moreover from 2 have "\<not> cap < length s + k" by (simp add: k_def)
  ultimately have "cap - (length s + k) < cap - length s" by arith
  with 2 show ?case by (simp add: k_def)
qed

text \<open>A C string ends at its first NUL; \<open>streq (a, b)\<close> is \<open>strcmp (a, b) == 0\<close>.\<close>

definition c_str :: "u8 list \<Rightarrow> u8 list" where
  "c_str s = takeWhile (\<lambda>b. b \<noteq> 0) s"

definition streq :: "u8 list \<Rightarrow> u8 list \<Rightarrow> bool" where
  "streq a b = (c_str a = c_str b)"

text \<open>
  \<open>exi_parse_header\<close>. The locals \<open>x\<close> and \<open>n\<close> are declared without a value: \<open>x\<close> has
  one only once \<open>parse_bits\<close> has returned 1, and \<open>n\<close>, set from \<open>p->ux\<close> (converted
  to \<open>int\<close>) and reduced by 2, is what \<open>parse_bit\<close> leaves in it. The return values of
  \<open>parse_bits\<close>, \<open>parse_uint\<close> and \<open>parse_bit\<close> are not looked at.
\<close>

definition exi_magic :: "u8 list" where
  "exi_magic = [0x24, 0x45, 0x58, 0x49]"

definition exi_parse_header :: "Parser \<Rightarrow> c_error + (int \<times> Parser)" where
  "exi_parse_header p =
     (let p0 = (if [mem p (ptr p), mem p (ptr p + 1), mem p (ptr p + 2), mem p (ptr p + 3)] = exi_magic
                then p\<lparr>ptr := ptr p + 4\<rparr> else p)
      in if need p0 5 then Inr (0, p0)
         else
           let c = mem p0 (ptr p0); p1 = p0\<lparr>ptr := ptr p0 + 1\<rparr>
           in if c = 0xa0 then
                case parse_bits 0 p1 6 of
                  Inl e \<Rightarrow> Inl e
                | Inr (rx, x, p2) \<Rightarrow>
                    (case parse_uint p2 of
                       Inl e \<Rightarrow> Inl e
                     | Inr (ru, p3) \<Rightarrow>
                         let n = sint (ucast (ux p3) :: u32)
                         in if n \<noteq> 0 \<and> n < 64 then
                              case parse_literal p3 [] (n - 2) 64 of
                                Inl e \<Rightarrow> Inl e
                              | Inr (p4, sid) \<Rightarrow>
                                  if rx = 0 then Inl Indeterminate_Value
                                  else if x = 0xc \<and> streq sid (schemaId p4) then
                                    case parse_bit (n - 2) p4 of
                                      Inl e \<Rightarrow> Inl e
                                    | Inr (rb, ee, p5) \<Rightarrow> Inr (ee, p5)
                                  else Inr (0, p4\<lparr>state := PARSE_INVALID\<rparr>)
                            else Inr (0, p3\<lparr>state := PARSE_INVALID\<rparr>))
              else Inr (0, p1\<lparr>state := PARSE_INVALID\<rparr>))"

text \<open>
  \<open>exi_rebuffer\<close> and \<open>exi_parse_init\<close>: the parser starts zeroed, on the \<open>length\<close>
  bytes at \<open>data\<close>. \<open>s0\<close> is the state whose number is 0.
\<close>

definition exi_rebuffer :: "Parser \<Rightarrow> nat \<Rightarrow> nat \<Rightarrow> Parser" where
  "exi_rebuffer p data len = p\<lparr>ptr := data, end_p := data + len\<rparr>"

definition exi_parse_init :: "ParseState \<Rightarrow> u8 list \<Rightarrow> (nat \<Rightarrow> u8) \<Rightarrow> nat \<Rightarrow> nat \<Rightarrow> Parser" where
  "exi_parse_init s0 sid m data len =
     exi_rebuffer \<lparr>mem = m, ptr = 0, end_p = 0, pbit = 0, ux = 0, ux_n = 0, state = s0,
       schemaId = sid\<rparr> data len"

text \<open>The memory that holds \<open>bs\<close> from address 0 on, and \<open>rest\<close> after it.\<close>

definition bytes_at :: "u8 list \<Rightarrow> (nat \<Rightarrow> u8) \<Rightarrow> nat \<Rightarrow> u8" where
  "bytes_at bs rest a = (if a < length bs then bs ! a else rest a)"

declare parse_uint_loop.simps [simp del] parse_literal.simps [simp del]

section \<open>The XML driver (xml\_parse.c)\<close>

text \<open>The simple types of schema.c: \<open>enum XsType\<close> and \<open>ST_SIMPLE\<close>.\<close>

datatype XsType = XS_NULL | XS_STRING | XS_BOOLEAN | XS_HEX_BINARY | XS_ANY_URI
  | XS_LONG | XS_INT | XS_SHORT | XS_BYTE | XS_ULONG | XS_UINT | XS_USHORT | XS_UBYTE

definition ST_SIMPLE :: nat where
  "ST_SIMPLE = 0x8000"

text \<open>The enumerator numbered \<open>k\<close>; 13 to 15 number none.\<close>

definition xs_kind :: "nat \<Rightarrow> XsType option" where
  "xs_kind k =
     (if k < 13 then
        Some ([XS_NULL, XS_STRING, XS_BOOLEAN, XS_HEX_BINARY, XS_ANY_URI, XS_LONG, XS_INT,
               XS_SHORT, XS_BYTE, XS_ULONG, XS_UINT, XS_USHORT, XS_UBYTE] ! k)
      else None)"

text \<open>
  Modelled from the spec: \<open>hex_digit\<close> is defined in xml\_token.c, which is not under
  src/. \<open>parse_hex\<close> takes its result \<open>c\<close> as nonzero exactly for a hex digit \<open>d\<close> and
  \<open>d - c\<close> as the digit's value (section 4.5: hexBinary is a stream of hex digit
  pairs).
\<close>

definition hex_digit :: "char \<Rightarrow> int" where
  "hex_digit d =
     (let k = (of_char d :: nat)
      in if 0x30 \<le> k \<and> k \<le> 0x39 then 0x30
         else if 0x61 \<le> k \<and> k \<le> 0x66 then 0x61 - 10
         else if 0x41 \<le> k \<and> k \<le> 0x46 then 0x41 - 10
         else 0)"

text \<open>
  The loop of \<open>parse_hex\<close>: \<open>while (c = hex_digit (d = *data)) { ... }\<close>. A C string is
  the list of its characters before the NUL; at the end of the list \<open>*data\<close> is NUL,
  which is no hex digit. The result says whether the loop was left at its end
  (\<open>True\<close>) or by \<open>return 0\<close> (\<open>False\<close>), and gives the array, \<open>m\<close> and \<open>data\<close> at that
  point. A store past the array ends the run.
\<close>

fun hex_loop :: "u8 list \<Rightarrow> nat \<Rightarrow> nat \<Rightarrow> string \<Rightarrow> c_error + (bool \<times> u8 list \<times> nat \<times> string)" where
  "hex_loop val n m [] = Inr (True, val, m, [])"
| "hex_loop val n m (d # data) =
     (if hex_digit d = 0 then Inr (True, val, m, d # data)
      else if m = n then Inr (False, val, m, d # data)
      else
        let x = push_bit 4 (int (of_char d) - hex_digit d)
        in case data of
             [] \<Rightarrow> Inr (False, val, m, [])
           | d2 # data2 \<Rightarrow>
               if hex_digit d2 \<noteq> 0 then
                 if m < length val then
                   hex_loop (val[m := of_int (x OR (int (of_char d2) - hex_digit d2))]) n (m + 1) data2
                 else Inl Buffer_Overrun
               else Inr (False, val, m, data2))"

text \<open>
  \<open>memmove (value+n, value, m)\<close> and \<open>memset (value, 0, n)\<close> on the array.
\<close>

definition memmove_up :: "u8 list \<Rightarrow> nat \<Rightarrow> nat \<Rightarrow> c_error + u8 list" where
  "memmove_up val n m =
     (if length val < n + m then Inl Buffer_Overrun
      else Inr (take n val @ take m val @ drop (n + m) val))"

definition memset0 :: "u8 list \<Rightarrow> nat \<Rightarrow> c_error + u8 list" where
  "memset0 val n =
     (if length val < n then Inl Buffer_Overrun else Inr (replicate n 0 @ drop n val))"

text \<open>
  \<open>parse_hex (value, n, data)\<close>. \<open>only\<close> is defined in xml\_token.c, which is not
  under src/; it is a parameter: the test of what follows the digits. \<open>n - m\<close> does
  not go below 0, since the loop leaves with 0 once \<open>m\<close> has reached \<open>n\<close>.
\<close>

definition parse_hex :: "(string \<Rightarrow> bool) \<Rightarrow> u8 list \<Rightarrow> nat \<Rightarrow> string \<Rightarrow> c_error + (int \<times> u8 list)" where
  "parse_hex only val n data =
     (case hex_loop val n 0 data of
        Inl e \<Rightarrow> Inl e
      | Inr (fin, val1, m, rest) \<Rightarrow>
          if \<not> fin then Inr (0, val1)
          else if m = 0 \<or> \<not> only rest then Inr (0, val1)
          else
            let n1 = n - m
            in if n1 \<noteq> 0 then
                 case memmove_up val1 n1 m of
                   Inl e \<Rightarrow> Inl e
                 | Inr val2 \<Rightarrow>
                     (case memset0 val2 n1 of Inl e \<Rightarrow> Inl e | Inr val3 \<Rightarrow> Inr (1, val3))
               else Inr (1, val1))"

text \<open>
  The fields of \<open>Parser\<close> that \<open>parse_value\<close> reads and writes: \<open>se_type\<close> is
  \<open>p->se->type\<close>, \<open>xdata\<close> the text that \<open>p->ptr\<close> points to, \<open>flag\<close> is \<open>p->flag\<close>.
\<close>

record XParser =
  se_type :: nat
  xdata :: string
  flag :: nat
  xstate :: ParseState

text \<open>
  What \<open>value\<close> points to, by the shape the schema type gives it: the 32-bit flag
  word of an object (booleans), a byte array (hexBinary), a character array (a string
  of fixed size), a pointer to an allocated string (NULL is \<open>None\<close>), or an integer.
  The model has no result where the shape is not the one the type stores into.
\<close>

datatype xs_value = Flag_word u32 | Byte_array "u8 list" | Char_array string
  | String_ptr "string option" | Integer int

datatype xml_error = C_error c_error | Wrong_shape

text \<open>
  \<open>parse_value\<close>. \<open>pack\<close> stands for \<open>pack_signed\<close> and \<open>pack_unsigned\<close> at the eight
  integer types: they rest on \<open>number64\<close> of xml\_token.c, which is not under src/.
\<close>

definition parse_value ::
  "(string \<Rightarrow> bool) \<Rightarrow> (XsType \<Rightarrow> string \<Rightarrow> xs_value \<Rightarrow> int \<times> xs_value) \<Rightarrow>
   XParser \<Rightarrow> xs_value \<Rightarrow> xml_error + (int \<times> XParser \<times> xs_value)" where
  "parse_value only pack p v =
     (let type = se_type p XOR ST_SIMPLE;
          data = xdata p;
          n = drop_bit 4 type
      in case xs_kind (type AND 0xf) of
           Some XS_STRING \<Rightarrow>
             if n \<noteq> 0 then
               if n - 1 < length data then Inr (0, p, v)
               else (case v of Char_array a \<Rightarrow> Inr (1, p, Char_array data) | _ \<Rightarrow> Inl Wrong_shape)
             else (case v of String_ptr a \<Rightarrow> Inr (1, p, String_ptr (Some data)) | _ \<Rightarrow> Inl Wrong_shape)
         | Some XS_BOOLEAN \<Rightarrow>
             if data = ''true'' \<or> data = ''1'' then
               case shl_int 1 (flag p) of
                 Inl e \<Rightarrow> Inl (C_error e)
               | Inr b \<Rightarrow>
                   (case v of Flag_word w \<Rightarrow> Inr (1, p, Flag_word (w OR b)) | _ \<Rightarrow> Inl Wrong_shape)
             else if \<not> (data = ''false'' \<or> data = ''0'') then
               Inr (0, p\<lparr>xstate := PARSE_INVALID\<rparr>, v)
             else Inr (1, p, v)
         | Some XS_HEX_BINARY \<Rightarrow>
             (case v of
                Byte_array a \<Rightarrow>
                  (case parse_hex only a n data of
                     Inl e \<Rightarrow> Inl (C_error e)
                   | Inr (r, a1) \<Rightarrow> Inr (r, p, Byte_array a1))
              | _ \<Rightarrow> Inl Wrong_shape)
         | Some XS_ANY_URI \<Rightarrow>
             (case v of String_ptr a \<Rightarrow> Inr (1, p, String_ptr (Some data)) | _ \<Rightarrow> Inl Wrong_shape)
         | Some XS_NULL \<Rightarrow> Inr (0, p, v)
         | Some k \<Rightarrow> (case pack k data v of (r, v1) \<Rightarrow> Inr (r, p, v1))
         | None \<Rightarrow> Inr (0, p, v))"

text \<open>\<open>is_boolean\<close> of schema.c: \<open>((xs)^ST_SIMPLE) == XS_BOOLEAN\<close>.\<close>

definition is_boolean :: "nat \<Rightarrow> bool" where
  "is_boolean xs = (xs XOR ST_SIMPLE = 2)"

section \<open>The hash table (hash.c)\<close>

text \<open>
  A data item is a value of type \<open>'d\<close>; a slot holds \<open>Some\<close> item or \<open>None\<close> for
  NULL (an erased item). The array \<open>slot\<close> of a group is the list of its elements, the
  empty list for the NULL pointer of a group that was never used; \<open>bits\<close> holds the
  occupancy bitmap in its low 58 bits and the count in its high 6 bits.
\<close>

record 'd SparseGroup =
  slot :: "'d option list"
  bits :: u64

text \<open>
  \<open>popcount64\<close>, and \<open>bit_rank (bits, i)\<close>: the number of bits of \<open>bits\<close> below
  position \<open>i\<close>. The groups use it with \<open>i < 58\<close>, so the count in the high bits is
  shifted out.
\<close>

definition popcount64 :: "u64 \<Rightarrow> int" where
  "popcount64 x0 =
     (let m1 = 0x5555555555555555;
          m2 = 0x3333333333333333;
          m4 = 0x0f0f0f0f0f0f0f0f;
          h01 = 0x0101010101010101;
          x1 = x0 - (drop_bit 1 x0 AND m1);
          x2 = (x1 AND m2) + (drop_bit 2 x1 AND m2);
          x3 = (x2 + drop_bit 4 x2) AND m4
      in uint (drop_bit 56 (x3 * h01)))"

definition bit_rank :: "u64 \<Rightarrow> nat \<Rightarrow> int" where
  "bit_rank b i = (if i \<noteq> 0 then popcount64 (push_bit (64 - i) b) else 0)"

text \<open>
\<open>g->bits >> 58\<close>, the count of the group.
\<close>

definition sg_count :: "'d SparseGroup \<Rightarrow> nat" where
  "sg_count g = unat (drop_bit 58 (bits g))"

text \<open>
  \<open>sg_insert (g, i, data)\<close>. With an array, \<open>realloc\<close> resizes it to \<open>count\<close> elements
  (one more than it has, in every table built by the functions below; an array that
  would grow by more holds elements nobody wrote), \<open>memmove\<close> moves the \<open>count - (s+1)\<close>
  elements from \<open>s\<close> on up by one, and \<open>slot[s]\<close> takes the item. Without one,
  \<open>calloc\<close> gives \<open>count\<close> NULL elements. The count is incremented and bit \<open>i\<close> set,
  whether or not it was set before.
\<close>

definition sg_insert :: "'d SparseGroup \<Rightarrow> nat \<Rightarrow> 'd \<Rightarrow> c_error + 'd SparseGroup" where
  "sg_insert g i data =
     (let bit = (push_bit i 1 :: u64);
          s = nat (bit_rank (bits g) i);
          count = sg_count g + 1;
          bits1 = (bits g + push_bit 58 1) OR bit
      in if slot g \<noteq> [] then
           if length (slot g) + 1 < count then Inl Indeterminate_Value
           else if count < s + 1 then Inl Buffer_Overrun
           else
             let slot1 = take count (slot g @ [None]);
                 slot2 = take (s + 1) slot1 @ take (count - (s + 1)) (drop s slot1)
             in Inr \<lparr>slot = slot2[s := Some data], bits = bits1\<rparr>
         else
           if count \<le> s then Inl Buffer_Overrun
           else Inr \<lparr>slot = (replicate count None)[s := Some data], bits = bits1\<rparr>)"

text \<open>
\<open>sg_empty (g, i)\<close>: \<open>(g->bits & (1ull << i)) == 0\<close>.
\<close>

definition sg_empty :: "'d SparseGroup \<Rightarrow> nat \<Rightarrow> bool" where
  "sg_empty g i = (bits g AND push_bit i 1 = 0)"

text \<open>
  \<open>ht->g\<close>, the group that \<open>hash_find\<close> marked: NULL, the group of the table with the
  given index, or a pointer into a table that has been freed.
\<close>

datatype g_ptr = G_null | G_group nat | G_freed

text \<open>
  \<open>HashTable\<close>: \<open>ht_i\<close>, \<open>ht_g\<close>, \<open>ht_min\<close>, \<open>ht_max\<close> and \<open>ht_size\<close> are the fields \<open>i\<close>,
  \<open>g\<close>, \<open>min\<close>, \<open>max\<close> and \<open>size\<close>; \<open>table\<close> is the array of groups, and \<open>last\<close> is its
  last element, at index \<open>length table - 1\<close>. A key is a value of type \<open>'k\<close>.
\<close>

record ('d, 'k) HashTable =
  get_key :: "'d \<Rightarrow> 'k"
  hash :: "'k \<Rightarrow> int"
  compare :: "'k \<Rightarrow> 'k \<Rightarrow> int"
  ht_i :: nat
  items :: int
  ht_min :: int
  ht_max :: int
  ht_size :: int
  table :: "'d SparseGroup list"
  ht_g :: g_ptr

text \<open>
\<open>HashPointer\<close>: \<open>hp_g\<close> is the index of the group \<open>p->g\<close>, \<open>hp_i\<close> is \<open>p->i\<close>.
\<close>

record HashPointer =
  hp_g :: nat
  hp_i :: int

text \<open>
  The loop of \<open>hash_next\<close>, from slot \<open>i\<close> of group \<open>gi\<close>: the first slot that is not
  NULL is returned with its position; at the end of a group \<open>next_group\<close> moves on,
  and returns NULL after the last group.
\<close>

function scan :: "'d SparseGroup list \<Rightarrow> nat \<Rightarrow> nat \<Rightarrow> c_error + ('d \<times> HashPointer) option" where
  "scan tbl gi i =
     (if length tbl \<le> gi then Inl Out_Of_Bounds
      else
        let sg = tbl ! gi; count = sg_count sg
        in if i < count then
             if length (slot sg) \<le> i then Inl Out_Of_Bounds
             else (case slot sg ! i of
                     Some data \<Rightarrow> Inr (Some (data, \<lparr>hp_g = gi, hp_i = int i\<rparr>))
                   | None \<Rightarrow> scan tbl gi (i + 1))
           else if int gi = int (length tbl) - 1 then Inr None
           else scan tbl (gi + 1) 0)"
  by pat_completeness auto
termination
  by (relation "measures [\<lambda>(tbl, gi, i). length tbl - gi, \<lambda>(tbl, gi, i). sg_count (tbl ! gi) - i]") auto

declare scan.simps [simp del]

text \<open>
\<open>hash_next\<close> and \<open>hash_iterate\<close>. The result is the item and the pointer after the call, or NULL.
\<close>

definition hash_next :: "('d, 'k) HashTable \<Rightarrow> HashPointer \<Rightarrow> c_error + ('d \<times> HashPointer) option" where
  "hash_next ht p =
     (if length (table ht) \<le> hp_g p then Inl Out_Of_Bounds
      else
        let sg = table ht ! hp_g p; count = int (sg_count sg); i1 = hp_i p + 1
        in if i1 = count then
             if int (hp_g p) = int (length (table ht)) - 1 then Inr None
             else scan (table ht) (hp_g p + 1) 0
           else if i1 < 0 then Inl Out_Of_Bounds
           else scan (table ht) (hp_g p) (nat i1))"

definition hash_iterate :: "('d, 'k) HashTable \<Rightarrow> c_error + ('d \<times> HashPointer) option" where
  "hash_iterate ht = hash_next ht \<lparr>hp_g = 0, hp_i = - 1\<rparr>"

lemma scan_position:
  "scan tbl gi i = Inr (Some (d, p)) \<Longrightarrow>
     hp_g p < length tbl \<and> 0 \<le> hp_i p \<and> nat (hp_i p) < sg_count (tbl ! hp_g p) \<and>
     (gi < hp_g p \<or> gi = hp_g p \<and> int i \<le> hp_i p)"
proof (induction tbl gi i rule: scan.induct)
  case (1 tbl gi i)
  from "1.prems" have gi: "\<not> length tbl \<le> gi"
    by (subst (asm) scan.simps) (auto split: if_splits)
  show ?case
  proof (cases "i < sg_count (tbl ! gi)")
    case True
    from "1.prems" gi True have len: "\<not> length (slot (tbl ! gi)) \<le> i"
      by (subst (asm) scan.simps) (auto simp: Let_def split: if_splits)
    show ?thesis
    proof (cases "slot (tbl ! gi) ! i")
      case None
      with "1.prems" gi True len have "scan tbl gi (i + 1) = Inr (Some (d, p))"
        by (subst (asm) scan.simps) (simp add: Let_def)
      from "1.IH"(1) [OF gi refl refl True len None this] show ?thesis by auto
    next
      case (Some a)
      with "1.prems" gi True len have "a = d" "p = \<lparr>hp_g = gi, hp_i = int i\<rparr>"
        by (subst (asm) scan.simps, simp add: Let_def)+
      with gi True show ?thesis by simp
    qed
  next
    case False
    from "1.prems" gi False have last: "int gi \<noteq> int (length tbl) - 1"
      by (subst (asm) scan.simps) (auto simp: Let_def split: if_splits)
    with "1.prems" gi False have "scan tbl (gi + 1) 0 = Inr (Some (d, p))"
      by (subst (asm) scan.simps) (simp add: Let_def)
    from "1.IH"(2) [OF gi refl refl False last this] show ?thesis by auto
  qed
qed

lemma hash_next_position:
  assumes "hash_next ht p = Inr (Some (d, q))"
  shows "hp_g q < length (table ht) \<and> 0 \<le> hp_i q \<and> nat (hp_i q) < sg_count (table ht ! hp_g q) \<and>
     (hp_g p < hp_g q \<or> hp_g p = hp_g q \<and> hp_i p < hp_i q)"
  using assms scan_position [of "table ht" "hp_g p + 1" 0 d q]
    scan_position [of "table ht" "hp_g p" "nat (hp_i p + 1)" d q]
  by (auto simp: hash_next_def Let_def split: if_splits)

text \<open>
  \<open>foreach_h (h, hp, ht)\<close>: the items that the loop visits, in order, from the
  first result on. The loops in hash.c and der.c do not change the table they walk.
\<close>

function hash_rest :: "('d, 'k) HashTable \<Rightarrow> c_error + ('d \<times> HashPointer) option \<Rightarrow> c_error + 'd list" where
  "hash_rest ht (Inl e) = Inl e"
| "hash_rest ht (Inr None) = Inr []"
| "hash_rest ht (Inr (Some (d, p))) =
     (if length (table ht) \<le> hp_g p \<or> hp_i p < 0 then Inl Out_Of_Bounds
      else case hash_rest ht (hash_next ht p) of Inl e \<Rightarrow> Inl e | Inr ds \<Rightarrow> Inr (d # ds))"
  by pat_completeness auto
termination
proof (relation "measures [\<lambda>(ht, r). case r of Inr (Some (d, p)) \<Rightarrow> Suc (length (table ht) - hp_g p) | _ \<Rightarrow> 0,
     \<lambda>(ht, r). case r of Inr (Some (d, p)) \<Rightarrow> Suc (sg_count (table ht ! hp_g p) - nat (hp_i p)) | _ \<Rightarrow> 0]", goal_cases)
  case 1
  show ?case by simp
next
  case (2 ht d p)
  show ?case
  proof (cases "hash_next ht p")
    case (Inl e)
    then show ?thesis by simp
  next
    case (Inr r)
    show ?thesis
    proof (cases r)
      case None
      with Inr show ?thesis by simp
    next
      case (Some dq)
      obtain d' q where dq: "dq = (d', q)" by (cases dq)
      from hash_next_position [of ht p d' q] Inr Some dq 2 show ?thesis
        by auto
    qed
  qed
qed

definition hash_elems :: "('d, 'k) HashTable \<Rightarrow> c_error + 'd list" where
  "hash_elems ht = hash_rest ht (hash_iterate ht)"


text \<open>
  A call may not return (\<open>None\<close>: \<open>hash_find\<close> loops while it meets neither the key
  nor an empty slot), may end in an error (\<open>Some (Inl e)\<close>) or returns (\<open>Some (Inr x)\<close>).
  \<open>then_r\<close> runs the next step after a return, \<open>fold_r\<close> a loop over a list.
\<close>

definition then_r :: "(c_error + 'a) option \<Rightarrow> ('a \<Rightarrow> (c_error + 'b) option) \<Rightarrow> (c_error + 'b) option" where
  "then_r m f = (case m of None \<Rightarrow> None | Some (Inl e) \<Rightarrow> Some (Inl e) | Some (Inr x) \<Rightarrow> f x)"

lemma then_r_mono [partial_function_mono]:
  assumes mf: "mono_option B" and mg: "\<And>y. mono_option (\<lambda>f. C y f)"
  shows "mono_option (\<lambda>f. then_r (B f) (\<lambda>y. C y f))"
proof (rule monotoneI, goal_cases)
  case (1 f g)
  note fg = 1
  have b: "option_ord (B f) (B g)" using mf fg unfolding monotone_def by blast
  have c: "option_ord (C y f) (C y g)" for y using mg [of y] fg unfolding monotone_def by blast
  show ?case
  proof (cases "B f")
    case None
    then show ?thesis by (simp add: then_r_def flat_ord_def)
  next
    case (Some r)
    with b have bg: "B g = Some r" by (simp add: flat_ord_def)
    show ?thesis
    proof (cases r)
      case (Inl e)
      with Some bg show ?thesis by (simp add: then_r_def flat_ord_def)
    next
      case (Inr x)
      with Some bg c [of x] show ?thesis by (simp add: then_r_def)
    qed
  qed
qed

fun fold_r :: "('x \<Rightarrow> 'a \<Rightarrow> (c_error + 'a) option) \<Rightarrow> 'x list \<Rightarrow> 'a \<Rightarrow> (c_error + 'a) option" where
  "fold_r f [] a = Some (Inr a)"
| "fold_r f (x # xs) a = then_r (f x a) (fold_r f xs)"

lemma fold_r_mono [partial_function_mono]:
  assumes "\<And>x a. mono_option (\<lambda>f. F f x a)"
  shows "mono_option (\<lambda>f. fold_r (F f) xs a)"
proof (induction xs arbitrary: a)
  case Nil
  show ?case by (simp add: option.const_mono)
next
  case (Cons x xs)
  show ?case by (simp, rule then_r_mono [OF assms Cons])
qed

text \<open>
  The loop of \<open>hash_find\<close>. \<open>mk\<close> is the pair \<open>ht->g\<close>, \<open>ht->i\<close>; the result is the
  mark and the entry found, as the index of its group and its rank in \<open>slot\<close>, or NULL.
\<close>

partial_function (option) find_loop ::
  "('d, 'k) HashTable \<Rightarrow> 'k \<Rightarrow> int \<Rightarrow> int \<Rightarrow> g_ptr \<times> nat \<Rightarrow>
   (c_error + ((g_ptr \<times> nat) \<times> (nat \<times> nat) option)) option" where
  "find_loop ht key index probes mk =
     (let mask = ht_size ht - 1
      in if index < 0 \<or> int (length (table ht)) \<le> index div 58 then Some (Inl Out_Of_Bounds)
         else
           let gi = nat (index div 58); i = nat (index mod 58); g = table ht ! gi;
               mk1 = (if fst mk = G_null then (G_group gi, i) else mk)
           in if slot g = [] \<or> sg_empty g i then Some (Inr (mk1, None))
              else
                let e = nat (bit_rank (bits g) i)
                in if length (slot g) \<le> e then Some (Inl Out_Of_Bounds)
                   else
                     case slot g ! e of
                       Some d \<Rightarrow>
                         if compare ht key (get_key ht d) = 0 then Some (Inr (mk, Some (gi, e)))
                         else find_loop ht key ((index + (probes + 1)) AND mask) (probes + 1) mk
                     | None \<Rightarrow>
                         find_loop ht key ((index + (probes + 1)) AND mask) (probes + 1) mk1)"

definition hash_find ::
  "('d, 'k) HashTable \<Rightarrow> 'k \<Rightarrow> (c_error + (('d, 'k) HashTable \<times> (nat \<times> nat) option)) option" where
  "hash_find ht key =
     (let mask = ht_size ht - 1; index = hash ht key AND mask
      in then_r (find_loop ht key index 0 (G_null, ht_i ht))
           (\<lambda>((g, i), e). Some (Inr (ht\<lparr>ht_g := g, ht_i := i\<rparr>, e))))"

text \<open>
Division on \<open>int\<close> truncates towards zero.
\<close>

definition c_div :: "int \<Rightarrow> int \<Rightarrow> int" where
  "c_div a b = sgn a * sgn b * (\<bar>a\<bar> div \<bar>b\<bar>)"

definition hash_init :: "('d, 'k) HashTable \<Rightarrow> int \<Rightarrow> ('d, 'k) HashTable" where
  "hash_init ht sz =
     (let groups = c_div (sz + 57) 58
      in ht\<lparr>ht_size := sz, items := 0,
            ht_min := c_div (sz * 40) 100,
            ht_max := c_div (sz * 80) 100,
            table := replicate (nat groups) \<lparr>slot = [], bits = 0\<rparr>\<rparr>)"

text \<open>
  \<open>hash_resize\<close>, with the \<open>hash_put\<close> that it calls as a parameter (the two functions
  call each other). \<open>hash_init\<close> does not touch \<open>ht->g\<close>: a mark on a group still points
  into the old table, which \<open>free_table\<close> frees when the items have been put.
\<close>

definition hash_resize_with ::
  "(('d, 'k) HashTable \<Rightarrow> 'd \<Rightarrow> (c_error + ('d, 'k) HashTable) option) \<Rightarrow>
   ('d, 'k) HashTable \<Rightarrow> int \<Rightarrow> (c_error + ('d, 'k) HashTable) option" where
  "hash_resize_with put ht sz =
     (let gt = ht;
          ht1 = hash_init (ht\<lparr>ht_g := (case ht_g ht of G_group gi \<Rightarrow> G_freed | g \<Rightarrow> g)\<rparr>) sz
      in case hash_elems gt of
           Inl e \<Rightarrow> Some (Inl e)
         | Inr ds \<Rightarrow> fold_r (\<lambda>data h. put h data) ds ht1)"

lemma hash_resize_with_mono [partial_function_mono]:
  assumes "\<And>h d. mono_option (\<lambda>f. P f h d)"
  shows "mono_option (\<lambda>f. hash_resize_with (P f) ht sz)"
  unfolding hash_resize_with_def Let_def
  by (cases "hash_elems ht") (auto intro!: fold_r_mono assms simp: option.const_mono)

text \<open>
  \<open>hash_insert (ht, data)\<close> is \<open>sg_insert (ht->g, ht->i, data)\<close>; \<open>store_slot\<close> and
  \<open>load_slot\<close> are \<open>*e = v\<close> and \<open>*e\<close> for an entry \<open>e\<close> that \<open>hash_find\<close> returned.
\<close>

definition hash_insert :: "('d, 'k) HashTable \<Rightarrow> 'd \<Rightarrow> c_error + ('d, 'k) HashTable" where
  "hash_insert ht data =
     (case ht_g ht of
        G_null \<Rightarrow> Inl Null_Pointer
      | G_freed \<Rightarrow> Inl Dangling_Pointer
      | G_group gi \<Rightarrow>
          if length (table ht) \<le> gi then Inl Out_Of_Bounds
          else (case sg_insert (table ht ! gi) (ht_i ht) data of
                  Inl e \<Rightarrow> Inl e
                | Inr g \<Rightarrow> Inr (ht\<lparr>table := (table ht)[gi := g]\<rparr>)))"

definition store_slot :: "('d, 'k) HashTable \<Rightarrow> nat \<times> nat \<Rightarrow> 'd option \<Rightarrow> ('d, 'k) HashTable" where
  "store_slot ht e v =
     (case e of (gi, r) \<Rightarrow>
        ht\<lparr>table := (table ht)[gi := (table ht ! gi)\<lparr>slot := (slot (table ht ! gi))[r := v]\<rparr>]\<rparr>)"

definition load_slot :: "('d, 'k) HashTable \<Rightarrow> nat \<times> nat \<Rightarrow> 'd option" where
  "load_slot ht e = (case e of (gi, r) \<Rightarrow> slot (table ht ! gi) ! r)"

partial_function (option) hash_put ::
  "('d, 'k) HashTable \<Rightarrow> 'd \<Rightarrow> (c_error + ('d, 'k) HashTable) option" where
  "hash_put ht data =
     then_r (hash_find ht (get_key ht data))
       (\<lambda>(ht1, e).
          case e of
            Some loc \<Rightarrow> Some (Inr (store_slot ht1 loc (Some data)))
          | None \<Rightarrow>
              then_r (if items ht1 = ht_max ht1
                      then hash_resize_with hash_put ht1 (push_bit 1 (ht_size ht1))
                      else Some (Inr ht1))
                (\<lambda>ht2. then_r (Some (hash_insert ht2 data))
                   (\<lambda>ht3. Some (Inr (ht3\<lparr>items := items ht3 + 1\<rparr>)))))"

declare find_loop.simps [code] hash_put.simps [code]

definition hash_resize :: "('d, 'k) HashTable \<Rightarrow> int \<Rightarrow> (c_error + ('d, 'k) HashTable) option" where
  "hash_resize = hash_resize_with hash_put"

text \<open>
  \<open>hash_delete\<close> and \<open>hash_get\<close>; the result is the table after the call and the
  pointer returned.
\<close>

definition hash_delete ::
  "('d, 'k) HashTable \<Rightarrow> 'k \<Rightarrow> (c_error + (('d, 'k) HashTable \<times> 'd option)) option" where
  "hash_delete ht key =
     then_r (hash_find ht key)
       (\<lambda>(ht1, e).
          case e of
            Some loc \<Rightarrow>
              let tmp = load_slot ht1 loc; ht2 = store_slot ht1 loc None
              in then_r (if items ht2 = ht_min ht2
                         then hash_resize ht2 (drop_bit 1 (ht_size ht2))
                         else Some (Inr ht2))
                   (\<lambda>ht3. Some (Inr (ht3\<lparr>items := items ht3 - 1\<rparr>, tmp)))
          | None \<Rightarrow> Some (Inr (ht1, None)))"

definition hash_get ::
  "('d, 'k) HashTable \<Rightarrow> 'k \<Rightarrow> (c_error + (('d, 'k) HashTable \<times> 'd option)) option" where
  "hash_get ht key =
     then_r (hash_find ht key)
       (\<lambda>(ht1, e). Some (Inr (ht1, case e of Some loc \<Rightarrow> load_slot ht1 loc | None \<Rightarrow> None)))"

text \<open>
The 64-bit integer keys: \<open>int64_compare\<close>, \<open>int64_hash\<close> (the value is converted to \<open>int\<close>) and \<open>new_int64_hash\<close>.
\<close>

definition int64_compare :: "u64 \<Rightarrow> u64 \<Rightarrow> int" where
  "int64_compare x y = (if x = y then 0 else 1)"

definition int64_hash :: "u64 \<Rightarrow> int" where
  "int64_hash key0 =
     (let key1 = NOT key0 + push_bit 21 key0;
          key2 = key1 XOR drop_bit 24 key1;
          key3 = (key2 + push_bit 3 key2) + push_bit 8 key2;
          key4 = key3 XOR drop_bit 14 key3;
          key5 = (key4 + push_bit 2 key4) + push_bit 4 key4;
          key6 = key5 XOR drop_bit 28 key5;
          key7 = key6 + push_bit 31 key6
      in sint (ucast key7 :: u32))"

definition hash_new :: "('d \<Rightarrow> 'k) \<Rightarrow> ('k \<Rightarrow> int) \<Rightarrow> ('k \<Rightarrow> 'k \<Rightarrow> int) \<Rightarrow> int \<Rightarrow> ('d, 'k) HashTable" where
  "hash_new gk h c sz =
     hash_init \<lparr>get_key = gk, hash = h, compare = c, ht_i = 0, items = 0, ht_min = 0, ht_max = 0,
       ht_size = 0, table = [], ht_g = G_null\<rparr> sz"

definition new_int64_hash :: "int \<Rightarrow> ('d \<Rightarrow> u64) \<Rightarrow> ('d, u64) HashTable" where
  "new_int64_hash sz gk = hash_new gk int64_hash int64_compare sz"


section \<open>DER devices (der.c)\<close>

text \<open>
  Objects that the code reaches through pointers (event blocks, stubs, resources) are
  named by their address.
\<close>

type_synonym addr = nat

text \<open>
  \<open>SE_DERControlBase_t\<close> is declared outside src/. \<open>copy_der_base\<close> names its fields;
  the struct is its \<open>_flags\<close> word and, for every field, the content of the field.
\<close>

datatype der_field = opModConnect | opModEnergize | opModFixedPFAbsorbW | opModFixedPFInjectW
  | opModFixedVar | opModFixedW | opModFreqDroop | opModFreqWatt | opModHFRTMayTrip
  | opModHFRTMustTrip | opModHVRTMayTrip | opModHVRTMomentaryCessation | opModHVRTMustTrip
  | opModLFRTMayTrip | opModLFRTMustTrip | opModLVRTMayTrip | opModLVRTMomentaryCessation
  | opModLVRTMustTrip | opModMaxLimW | opModTargetVar | opModTargetW | opModVoltVar
  | opModVoltWatt | opModWattPF | opModWattVar | rampTms

record 'v SE_DERControlBase_t =
  flags :: u32
  field :: "der_field \<Rightarrow> 'v"

text \<open>
  The macros \<open>se_exists\<close>, \<open>se_true\<close> and \<open>se_set_true\<close> are defined outside src/. Each
  field has a flag \<open>SE_<field>_exists\<close>, the two booleans a flag \<open>SE_<field>_true\<close>; the
  parameters \<open>xb\<close> and \<open>tb\<close> give the bit of \<open>_flags\<close> that each flag is. \<open>se_exists\<close> and
  \<open>se_true\<close> test the flag, \<open>se_set_true\<close> sets the one that \<open>se_true\<close> tests.
\<close>

definition se_exists :: "(der_field \<Rightarrow> nat) \<Rightarrow> 'v SE_DERControlBase_t \<Rightarrow> der_field \<Rightarrow> bool" where
  "se_exists xb b f = bit (flags b) (xb f)"

definition se_true :: "(der_field \<Rightarrow> nat) \<Rightarrow> 'v SE_DERControlBase_t \<Rightarrow> der_field \<Rightarrow> bool" where
  "se_true tb b f = bit (flags b) (tb f)"

definition se_set_true :: "(der_field \<Rightarrow> nat) \<Rightarrow> 'v SE_DERControlBase_t \<Rightarrow> der_field \<Rightarrow> 'v SE_DERControlBase_t" where
  "se_set_true tb a f = a\<lparr>flags := flags a OR push_bit (tb f) 1\<rparr>"

text \<open>
The macros \<open>copy_field\<close> and \<open>copy_boolean\<close> of der.c.
\<close>

definition copy_field ::
  "(der_field \<Rightarrow> nat) \<Rightarrow> 'v SE_DERControlBase_t \<Rightarrow> 'v SE_DERControlBase_t \<Rightarrow> der_field \<Rightarrow> 'v SE_DERControlBase_t" where
  "copy_field xb a b f = (if se_exists xb b f then a\<lparr>field := (field a)(f := field b f)\<rparr> else a)"

definition copy_boolean ::
  "(der_field \<Rightarrow> nat) \<Rightarrow> 'v SE_DERControlBase_t \<Rightarrow> 'v SE_DERControlBase_t \<Rightarrow> der_field \<Rightarrow> 'v SE_DERControlBase_t" where
  "copy_boolean tb a b f = (if se_true tb b f then se_set_true tb a f else a)"

text \<open>
  \<open>copy_der_base (a, b, mask)\<close>: the fields in the order of the source; the result is
  \<open>a\<close> and \<open>b\<close> after the call. \<open>a\<close> and \<open>b\<close> are two objects.
\<close>

definition der_booleans :: "der_field list" where
  "der_booleans = [opModConnect, opModEnergize]"

definition der_values :: "der_field list" where
  "der_values = [opModFixedPFAbsorbW, opModFixedPFInjectW, opModFixedVar, opModFixedW,
     opModFreqDroop, opModFreqWatt, opModHFRTMayTrip, opModHFRTMustTrip, opModHVRTMayTrip,
     opModHVRTMomentaryCessation, opModHVRTMustTrip, opModLFRTMayTrip, opModLFRTMustTrip,
     opModLVRTMayTrip, opModLVRTMomentaryCessation, opModLVRTMustTrip, opModMaxLimW,
     opModTargetVar, opModTargetW, opModVoltVar, opModVoltWatt, opModWattPF, opModWattVar,
     rampTms]"

definition copy_der_base ::
  "(der_field \<Rightarrow> nat) \<Rightarrow> (der_field \<Rightarrow> nat) \<Rightarrow> 'v SE_DERControlBase_t \<Rightarrow> 'v SE_DERControlBase_t \<Rightarrow> u32 \<Rightarrow>
   'v SE_DERControlBase_t \<times> 'v SE_DERControlBase_t" where
  "copy_der_base xb tb a b msk =
     (let flags0 = flags b;
          b1 = b\<lparr>flags := flags b AND msk\<rparr>;
          a1 = a\<lparr>flags := flags a OR msk\<rparr>;
          a2 = foldl (\<lambda>a f. copy_boolean tb a b1 f) a1 der_booleans;
          a3 = foldl (\<lambda>a f. copy_field xb a b1 f) a2 der_values
      in (a3, b1\<lparr>flags := flags0\<rparr>))"

text \<open>
  The scheduler's types are declared in schedule.c, which is not under src/; these are
  the fields that der.c uses, and the statuses that section 3 of the spec lists.
  \<open>Schedule\<close>: \<open>blocks\<close> is the hash table of the event blocks, the three lists hold
  event blocks. \<open>DefaultControl\<close> and \<open>DerDevice\<close>: \<open>dc_active\<close> and \<open>d_active\<close> are the
  fields \<open>active\<close>, \<open>dc_context\<close> is \<open>context\<close>.
\<close>

datatype Status = Scheduled | Active | Cancelled | Superseded | Aborted | Complete

record EventBlock =
  event :: addr
  program :: addr
  status :: Status
  der :: u32

datatype ResponseReason = EventAbortedProgram | Response_code nat

record 'k Schedule =
  blocks :: "(addr, 'k) HashTable"
  scheduled :: "addr list"
  active :: "addr list"
  superseded :: "addr list"
  device :: addr

record DefaultControl =
  dderc :: addr
  dc_context :: addr
  dc_active :: u32

datatype EventKind = DEFAULT_START | DEFAULT_END

record DerDevice =
  derpl :: "addr list"
  defaults :: "DefaultControl list"
  d_active :: u32

text \<open>
  The memory that \<open>update_defaults\<close> and \<open>remove_programs\<close> work on: the schedule
  \<open>s\<close>, the event blocks by address, the device \<open>s->context\<close> and its address.
  \<open>default_control p\<close> is \<open>resource_data (get_subordinate (p, SE_DefaultDERControl))\<close>
  for the program \<open>p\<close>, \<open>se_flags dd\<close> the \<open>_flags\<close> of the \<open>DERControlBase\<close> of \<open>dd\<close>
  (both from the resource layer, outside src/). \<open>responses\<close> are the calls of
  \<open>device_response\<close> and \<open>events\<close> those of \<open>insert_event\<close>, oldest first.
\<close>

record 'k Der_memory =
  sched :: "'k Schedule"
  block_at :: "addr \<Rightarrow> EventBlock"
  dev_addr :: addr
  dev :: DerDevice
  default_control :: "addr \<Rightarrow> addr option"
  se_flags :: "addr \<Rightarrow> u32"
  responses :: "(addr \<times> addr \<times> ResponseReason) list"
  events :: "(DefaultControl \<times> EventKind) list"

text \<open>
  Modelled from the spec: \<open>find_by_data\<close> and \<open>list_subtract\<close> are defined in list.c,
  which is not under src/. Section 4.7: the set difference of the previous list minus
  the new list; the elements are compared by their \<open>data\<close> (\<open>key\<close>).
\<close>

definition find_by_data :: "'a list \<Rightarrow> 'a \<Rightarrow> bool" where
  "find_by_data l x = (x \<in> set l)"

definition list_subtract :: "('a \<Rightarrow> 'b) \<Rightarrow> 'a list \<Rightarrow> 'a list \<Rightarrow> 'a list" where
  "list_subtract key a b = filter (\<lambda>x. key x \<notin> key ` set b) a"

text \<open>
\<open>insert_default\<close> and the \<open>while (l && mask)\<close> loop of \<open>update_defaults\<close>.
\<close>

definition insert_default :: "DefaultControl list \<Rightarrow> addr \<Rightarrow> addr \<Rightarrow> u32 \<Rightarrow> DefaultControl list" where
  "insert_default d dd ctx act = \<lparr>dderc = dd, dc_context = ctx, dc_active = act\<rparr> # d"

fun defaults_loop ::
  "'k Der_memory \<Rightarrow> addr list \<Rightarrow> u32 \<Rightarrow> DefaultControl list \<Rightarrow> (DefaultControl \<times> EventKind) list \<Rightarrow>
   DefaultControl list \<times> (DefaultControl \<times> EventKind) list" where
  "defaults_loop st [] msk m evs = (m, evs)"
| "defaults_loop st (p # l) msk m evs =
     (if msk = 0 then (m, evs)
      else
        case default_control st p of
          None \<Rightarrow> defaults_loop st l msk m evs
        | Some dd \<Rightarrow>
            let flags = se_flags st dd; act = flags AND msk
            in if act \<noteq> 0 then
                 let msk1 = msk AND NOT flags;
                     m1 = insert_default m dd (dev_addr st) act;
                     evs1 = (if \<not> find_by_data (map dderc (defaults (dev st))) dd
                             then evs @ [(hd m1, DEFAULT_START)] else evs)
                 in defaults_loop st l msk1 m1 evs1
               else defaults_loop st l msk m evs)"

definition update_defaults :: "'k Der_memory \<Rightarrow> 'k Der_memory" where
  "update_defaults st =
     (let d = dev st;
          msk0 = foldl (\<lambda>msk eb. msk OR der (block_at st eb)) 0 (active (sched st));
          d1 = d\<lparr>d_active := msk0\<rparr>;
          st1 = st\<lparr>dev := d1\<rparr>;
          (m, evs) = defaults_loop st1 (derpl d1) (NOT msk0) [] (events st1);
          n = list_subtract dderc (defaults d1) m;
          evs1 = evs @ map (\<lambda>l. (l, DEFAULT_END)) n
      in st1\<lparr>dev := d1\<lparr>defaults := rev m\<rparr>, events := evs1\<rparr>)"

text \<open>
  Modelled from the spec: \<open>remove_block\<close> is defined in schedule.c and
  \<open>device_response\<close> in the response client, neither under src/. Section 4.7:
  the block is removed from the schedule, whose lists are \<open>scheduled\<close>, \<open>active\<close>
  and \<open>superseded\<close> (section 3); the response goes to the server.
\<close>

definition remove_block :: "'k Der_memory \<Rightarrow> addr \<Rightarrow> 'k Der_memory" where
  "remove_block st eb =
     st\<lparr>sched := (sched st)\<lparr>scheduled := filter (\<lambda>b. b \<noteq> eb) (scheduled (sched st)),
                              active := filter (\<lambda>b. b \<noteq> eb) (active (sched st)),
                              superseded := filter (\<lambda>b. b \<noteq> eb) (superseded (sched st))\<rparr>\<rparr>"

definition device_response :: "'k Der_memory \<Rightarrow> addr \<Rightarrow> addr \<Rightarrow> ResponseReason \<Rightarrow> 'k Der_memory" where
  "device_response st d e r = st\<lparr>responses := responses st @ [(d, e, r)]\<rparr>"

text \<open>
  \<open>remove_programs\<close>: \<open>remove_step\<close> is the body of its \<open>foreach_h\<close> loop,
  \<open>derpl0\<close> the list of removed programs (NULL is the empty list).
\<close>

definition remove_step :: "addr list \<Rightarrow> 'k Der_memory \<Rightarrow> addr \<Rightarrow> 'k Der_memory" where
  "remove_step derpl0 st eb =
     (if find_by_data derpl0 (program (block_at st eb)) then
        let st1 = remove_block st eb;
            st2 = (if status (block_at st1 eb) = Active
                   then device_response st1 (device (sched st1)) (event (block_at st1 eb)) EventAbortedProgram
                   else st1)
        in st2\<lparr>block_at := (block_at st2)(eb := (block_at st2 eb)\<lparr>status := Aborted\<rparr>)\<rparr>
      else st)"

definition remove_programs :: "'k Der_memory \<Rightarrow> addr list \<Rightarrow> c_error + 'k Der_memory" where
  "remove_programs st derpl0 =
     (if derpl0 = [] then Inr st
      else case hash_elems (blocks (sched st)) of
             Inl e \<Rightarrow> Inl e
           | Inr ebs \<Rightarrow> Inr (foldl (remove_step derpl0) st ebs))"


section \<open>Vocabulary of the statements\<close>

text \<open>
  A hex digit, its value, and the bytes that a string of hex digits spells, two digits
  to the byte, most significant digit first.
\<close>

definition is_hex :: "char \<Rightarrow> bool" where
  "is_hex d = (hex_digit d \<noteq> 0)"

definition hex_val :: "char \<Rightarrow> nat" where
  "hex_val d = nat (int (of_char d) - hex_digit d)"

fun hex_bytes :: "string \<Rightarrow> u8 list" where
  "hex_bytes (a # b # ds) = of_nat (16 * hex_val a + hex_val b) # hex_bytes ds"
| "hex_bytes ds = []"

text \<open>A terminator test for examples: nothing may follow the digits.\<close>

definition at_end :: "string \<Rightarrow> bool" where
  "at_end r = (r = [])"

text \<open>Memory that reads 0 after the buffer, for examples.\<close>

definition no_rest :: "nat \<Rightarrow> u8" where
  "no_rest a = 0"

text \<open>An integer decoder that accepts nothing, for examples.\<close>

definition no_pack :: "XsType \<Rightarrow> string \<Rightarrow> xs_value \<Rightarrow> int \<times> xs_value" where
  "no_pack k d v = (0, v)"

fun disjoint_masks :: "u32 list \<Rightarrow> bool" where
  "disjoint_masks [] = True"
| "disjoint_masks (x # xs) = ((\<forall>y\<in>set xs. x AND y = 0) \<and> disjoint_masks xs)"

definition removed :: "addr list \<Rightarrow> 'k Der_memory \<Rightarrow> addr list \<Rightarrow> addr \<Rightarrow> bool" where
  "removed D st es b = (b \<in> set es \<and> program (block_at st b) \<in> set D)"


text \<open>
  Runs of the hash table: a list of puts, a list of deletes, the pointer that the last
  call returned, and the pair of \<open>ht->items\<close> and the items that \<open>foreach_h\<close> visits.
\<close>

fun hash_puts :: "('d, 'k) HashTable \<Rightarrow> 'd list \<Rightarrow> (c_error + ('d, 'k) HashTable) option" where
  "hash_puts ht [] = Some (Inr ht)"
| "hash_puts ht (d # ds) = then_r (hash_put ht d) (\<lambda>h. hash_puts h ds)"

fun hash_deletes :: "('d, 'k) HashTable \<Rightarrow> 'k list \<Rightarrow> (c_error + ('d, 'k) HashTable) option" where
  "hash_deletes ht [] = Some (Inr ht)"
| "hash_deletes ht (k # ks) = then_r (hash_delete ht k) (\<lambda>(h, r). hash_deletes h ks)"

definition returned :: "(c_error + ('h \<times> 'r)) option \<Rightarrow> (c_error + 'r) option" where
  "returned r = (case r of Some (Inr (h, x)) \<Rightarrow> Some (Inr x) | Some (Inl e) \<Rightarrow> Some (Inl e) | None \<Rightarrow> None)"

definition counted :: "(c_error + ('d, 'k) HashTable) option \<Rightarrow> (c_error + int \<times> (c_error + 'd list)) option" where
  "counted r = (case r of Some (Inr h) \<Rightarrow> Some (Inr (items h, hash_elems h)) | Some (Inl e) \<Rightarrow> Some (Inl e) | None \<Rightarrow> None)"

text \<open>
  An example: the table that \<open>new_int64_hash (8, ...)\<close> holds after \<open>hash_put\<close> of
  the event blocks at the addresses 1 and 2, keyed by their address. Block 1 is Active
  and belongs to program 10, block 2 is Scheduled and belongs to program 20; the
  programs have the default controls 110 and 120.
\<close>

definition example_blocks :: "(addr, u64) HashTable" where
  "example_blocks =
     \<lparr>get_key = of_nat, hash = int64_hash, compare = int64_compare, ht_i = 4, items = 2,
      ht_min = 3, ht_max = 6, ht_size = 8,
      table = [\<lparr>slot = [Some 2, Some 1], bits = 576460752303423568\<rparr>], ht_g = G_group 0\<rparr>"

definition example_block_at :: "addr \<Rightarrow> EventBlock" where
  "example_block_at b =
     (if b = 1 then \<lparr>event = 101, program = 10, status = Active, der = 3\<rparr>
      else \<lparr>event = 102, program = 20, status = Scheduled, der = 4\<rparr>)"

definition example_default :: "addr \<Rightarrow> addr option" where
  "example_default p = (if p = 10 then Some 110 else if p = 20 then Some 120 else None)"

definition example_flags :: "addr \<Rightarrow> u32" where
  "example_flags dd = (if dd = 110 then 6 else 12)"

definition example_memory :: "u64 Der_memory" where
  "example_memory =
     \<lparr>sched = \<lparr>blocks = example_blocks, scheduled = [2], active = [1], superseded = [],
                device = 7\<rparr>,
      block_at = example_block_at, dev_addr = 9,
      dev = \<lparr>derpl = [10, 20], defaults = [], d_active = 0\<rparr>,
      default_control = example_default, se_flags = example_flags,
      responses = [], events = []\<rparr>"

section \<open>Incomplete input leaves the cursor where it was\<close>

lemma parse_byte_incomplete:
  "parse_byte b p = Inr (0, b', p') \<Longrightarrow> p' = p \<and> b' = b"
  by (auto simp: parse_byte_def Let_def split: if_splits)

lemma parse_bit_incomplete:
  "parse_bit b p = Inr (0, b', p') \<Longrightarrow> p' = p \<and> b' = b"
  by (auto simp: parse_bit_def Let_def split: if_splits)

lemma parse_bits_incomplete:
  "parse_bits x p n = Inr (0, x', p') \<Longrightarrow> p' = p \<and> x' = x"
  by (auto simp: parse_bits_def Let_def shl_int_def split: if_splits prod.splits)


lemmas exi_eval = parse_uint_def parse_uint_loop.simps parse_byte_def need_def shl_int_def
  exi_parse_init_def exi_rebuffer_def bytes_at_def Let_def parse_bits_def parse_bit_def
  parse_literal.simps exi_parse_header_def exi_magic_def utf8_encode_def streq_def c_str_def
  mask_eq_exp_minus_1

text \<open>
  C2. Whenever \<open>parse_byte\<close>, \<open>parse_bit\<close> or \<open>parse_bits\<close> finds fewer bytes between
  \<open>p->ptr\<close> and \<open>p->end\<close> than it needs, it returns 0 and commits nothing: the parser
  (\<open>ptr\<close> and \<open>bit\<close> with it) and the output argument are what they were before the
  call. Conversely a return of 0 always comes with the parser unchanged, so the next
  call, after \<open>exi_rebuffer\<close>, starts at the same bit of the same byte.
\<close>

theorem incomplete_primitive_keeps_cursor:
  "(need p (if pbit p \<noteq> 0 then 2 else 1) \<longrightarrow> parse_byte b p = Inr (0, b, p)) \<and>
   (need p 1 \<longrightarrow> parse_bit c p = Inr (0, c, p)) \<and>
   (need p (if (pbit p + n) AND 7 \<noteq> 0 then int (drop_bit 3 (pbit p + n)) + 1
            else int (drop_bit 3 (pbit p + n))) \<longrightarrow> parse_bits x p n = Inr (0, x, p)) \<and>
   (parse_byte b p = Inr (0, b', p1) \<longrightarrow> ptr p1 = ptr p \<and> pbit p1 = pbit p \<and> p1 = p \<and> b' = b) \<and>
   (parse_bit c p = Inr (0, c', p2) \<longrightarrow> ptr p2 = ptr p \<and> pbit p2 = pbit p \<and> p2 = p \<and> c' = c) \<and>
   (parse_bits x p n = Inr (0, x', p3) \<longrightarrow> ptr p3 = ptr p \<and> pbit p3 = pbit p \<and> p3 = p \<and> x' = x)"
  using parse_byte_incomplete [of b p b' p1] parse_bit_incomplete [of c p c' p2]
    parse_bits_incomplete [of x p n x' p3]
  by (auto simp: parse_byte_def parse_bit_def parse_bits_def Let_def)

theorem incomplete_primitive_keeps_cursor_witness:
  "parse_byte 7 ((exi_parse_init PARSE_NEXT [] no_rest 3 0)\<lparr>pbit := 5\<rparr>)
     = Inr (0, 7, (exi_parse_init PARSE_NEXT [] no_rest 3 0)\<lparr>pbit := 5\<rparr>) \<and>
   parse_bit 7 ((exi_parse_init PARSE_NEXT [] no_rest 3 0)\<lparr>pbit := 5\<rparr>)
     = Inr (0, 7, (exi_parse_init PARSE_NEXT [] no_rest 3 0)\<lparr>pbit := 5\<rparr>) \<and>
   parse_bits 7 ((exi_parse_init PARSE_NEXT [] no_rest 3 0)\<lparr>pbit := 5\<rparr>) 3
     = Inr (0, 7, (exi_parse_init PARSE_NEXT [] no_rest 3 0)\<lparr>pbit := 5\<rparr>)"
  using incomplete_primitive_keeps_cursor
    [of "(exi_parse_init PARSE_NEXT [] no_rest 3 0)\<lparr>pbit := 5\<rparr>" 7 7 3 7]
  by (simp add: need_def exi_parse_init_def exi_rebuffer_def)

text \<open>
  C3 (the code departs from the claim). \<open>parse_uint\<close> shifts each 7-bit group in
  \<open>int\<close>: \<open>(b & 0x7f) << p->ux_n\<close>. On the five bytes \<open>80 80 80 80 10\<close>, the base-128
  little-endian encoding of \<open>2^32\<close>, the fifth group is shifted by 28 and its bit
  leaves the 32-bit result: the call returns 1 with \<open>p->ux = 0\<close>. On ten groups, the
  70-bit boundary, the sixth shift has the count 35, which C leaves undefined.
\<close>

theorem parse_uint_drops_high_groups:
  "parse_uint (exi_parse_init s0 sid (bytes_at [0x80, 0x80, 0x80, 0x80, 0x10] rest) 0 5)
     = Inr (1, (exi_parse_init s0 sid (bytes_at [0x80, 0x80, 0x80, 0x80, 0x10] rest) 0 5)
                 \<lparr>ptr := 5, ux := 0\<rparr>) \<and>
   parse_uint (exi_parse_init s0 sid
       (bytes_at [0xff, 0xff, 0xff, 0xff, 0xff, 0xff, 0xff, 0xff, 0xff, 0x7f] rest) 0 10)
     = Inl Undefined_Shift"
  by (simp add: exi_eval)

text \<open>
  C4 as the spec states it fails: on the ten bytes \<open>24 45 58 49 A0 60 04 53 31 80\<close>
  the six option bits read \<open>0x18\<close>, not \<open>0xC\<close>, the length read at bit offset 6 is 1,
  \<open>n\<close> becomes \<open>-1\<close> and \<open>parse_literal\<close> writes past the 64 bytes of \<open>schemaId\<close>; the
  call does not return 1.
\<close>

theorem exi_header_byte_aligned_rejected:
  "exi_parse_header (exi_parse_init PARSE_NEXT [0x53, 0x31]
      (bytes_at [0x24, 0x45, 0x58, 0x49, 0xA0, 0x60, 0x04, 0x53, 0x31, 0x80] no_rest) 0 10)
    = Inl Buffer_Overrun"
  by (simp add: exi_eval no_rest_def)

text \<open>
  C4, amended. The options document of the comment in exi\_parse.c is a bit stream:
  \<open>0 01 10 0\<close>, then the byte \<open>0x04\<close>, \<open>S\<close>, \<open>1\<close> and the EE bit, none of them on a byte
  boundary. Packed after the header byte \<open>A0\<close> it is \<open>30 11 4C C6\<close>. For a parser on
  the nine bytes \<open>24 45 58 49 A0 30 11 4C C6\<close> whose schema has the schemaId \<open>S1\<close>,
  \<open>exi_parse_header\<close> returns 1 and leaves \<open>state\<close> as it was; the cursor is at bit 7
  of the last byte.
\<close>

theorem exi_header_bit_packed_accepted:
  "exi_parse_header (exi_parse_init s0 [0x53, 0x31]
      (bytes_at [0x24, 0x45, 0x58, 0x49, 0xA0, 0x30, 0x11, 0x4C, 0xC6] rest) 0 9)
    = Inr (1, (exi_parse_init s0 [0x53, 0x31]
      (bytes_at [0x24, 0x45, 0x58, 0x49, 0xA0, 0x30, 0x11, 0x4C, 0xC6] rest) 0 9)
        \<lparr>ptr := 8, pbit := 7, ux := 0x31\<rparr>)"
  by (simp add: exi_eval)

section \<open>Properties of the XML value parsers\<close>

text \<open>
  C5. On a boolean-typed schema entry, \<open>parse_value\<close> returns 1 and sets bit
  \<open>1 << p->flag\<close> of the 32-bit flag word for exactly the texts \<open>true\<close> and \<open>1\<close>,
  returns 1 and leaves the flag word as it is for exactly \<open>false\<close> and \<open>0\<close>, and for
  every other text sets \<open>p->state = PARSE_INVALID\<close> and returns 0. (\<open>p->flag\<close> is a bit
  number of the flag word, below 32.)
\<close>

theorem xml_boolean_values:
  assumes "is_boolean (se_type p)" "flag p < 32"
  shows "parse_value only pack p (Flag_word w) =
     (if xdata p = ''true'' \<or> xdata p = ''1'' then Inr (1, p, Flag_word (w OR push_bit (flag p) 1))
      else if xdata p = ''false'' \<or> xdata p = ''0'' then Inr (1, p, Flag_word w)
      else Inr (0, p\<lparr>xstate := PARSE_INVALID\<rparr>, Flag_word w))"
proof -
  have "se_type p XOR ST_SIMPLE = 2" using assms(1) by (simp add: is_boolean_def)
  then have "xs_kind ((se_type p XOR ST_SIMPLE) AND 0xf) = Some XS_BOOLEAN"
    by (simp add: xs_kind_def)
  then show ?thesis using assms(2) by (simp add: parse_value_def shl_int_def Let_def)
qed

theorem xml_boolean_values_witness:
  "parse_value at_end no_pack \<lparr>se_type = 0x8002, xdata = ''true'', flag = 3, xstate = PARSE_ELEMENT\<rparr>
      (Flag_word 0x10)
     = Inr (1, \<lparr>se_type = 0x8002, xdata = ''true'', flag = 3, xstate = PARSE_ELEMENT\<rparr>,
             Flag_word 0x18) \<and>
   parse_value at_end no_pack \<lparr>se_type = 0x8002, xdata = ''yes'', flag = 3, xstate = PARSE_ELEMENT\<rparr>
      (Flag_word 0x10)
     = Inr (0, \<lparr>se_type = 0x8002, xdata = ''yes'', flag = 3, xstate = PARSE_INVALID\<rparr>,
             Flag_word 0x10)"
  using xml_boolean_values
      [where p = "\<lparr>se_type = 0x8002, xdata = ''true'', flag = 3, xstate = PARSE_ELEMENT\<rparr>"
         and only = at_end and pack = no_pack and w = "0x10"]
    xml_boolean_values
      [where p = "\<lparr>se_type = 0x8002, xdata = ''yes'', flag = 3, xstate = PARSE_ELEMENT\<rparr>"
         and only = at_end and pack = no_pack and w = "0x10"]
  by (simp add: is_boolean_def ST_SIMPLE_def)


lemma hex_val_less: "is_hex d \<Longrightarrow> hex_val d < 16"
  by (auto simp: is_hex_def hex_val_def hex_digit_def Let_def split: if_splits)

lemma hex_byte_eq:
  assumes "is_hex a" "is_hex b"
  shows "(of_int (push_bit 4 (int (of_char a) - hex_digit a) OR (int (of_char b) - hex_digit b)) :: u8)
     = of_nat (16 * hex_val a + hex_val b)"
proof -
  have a: "int (of_char a) - hex_digit a = int (hex_val a)"
    using assms(1) by (auto simp: is_hex_def hex_val_def hex_digit_def Let_def split: if_splits)
  have b: "int (of_char b) - hex_digit b = int (hex_val b)"
    using assms(2) by (auto simp: is_hex_def hex_val_def hex_digit_def Let_def split: if_splits)
  have lt: "hex_val b < 16" using assms(2) by (rule hex_val_less)
  have tb: "take_bit 4 (int (hex_val b)) = int (hex_val b)"
    using lt by (simp add: take_bit_int_eq_self)
  have "push_bit 4 (int (hex_val a)) OR int (hex_val b) = concat_bit 4 (int (hex_val b)) (int (hex_val a))"
    by (simp add: concat_bit_def tb or.commute)
  also have "\<dots> = int (hex_val b) + push_bit 4 (int (hex_val a))"
    by (simp add: concat_bit_eq tb)
  finally show ?thesis unfolding a b by (simp add: push_bit_eq_mult)
qed



lemma takeWhile_hex_Cons2:
  "is_hex d \<Longrightarrow> is_hex d2 \<Longrightarrow> takeWhile is_hex (d # d2 # ds) = d # d2 # takeWhile is_hex ds"
  by simp

lemma hex_loop_complete:
  assumes "m \<le> n" "length val = n"
    and "even (length (takeWhile is_hex data))"
    and "m + length (takeWhile is_hex data) div 2 \<le> n"
  shows "hex_loop val n m data =
     Inr (True, take m val @ hex_bytes (takeWhile is_hex data) @
            drop (m + length (takeWhile is_hex data) div 2) val,
          m + length (takeWhile is_hex data) div 2, dropWhile is_hex data)"
  using assms
proof (induction val n m data rule: hex_loop.induct)
  case (1 val n m)
  then show ?case by simp
next
  case (2 val n m d data)
  show ?case
  proof (cases "is_hex d")
    case False
    then show ?thesis by (simp add: is_hex_def)
  next
    case hd: True
    then obtain d2 data2 where data: "data = d2 # data2" and hd2: "is_hex d2"
      using "2.prems"(3) by (cases data) (auto split: if_splits)
    have tw: "takeWhile is_hex (d # data) = d # d2 # takeWhile is_hex data2"
      using hd hd2 data by simp
    have dw: "dropWhile is_hex (d # data) = dropWhile is_hex data2"
      using hd hd2 data by simp
    let ?k = "length (takeWhile is_hex data2) div 2"
    have k: "length (takeWhile is_hex (d # data)) div 2 = Suc ?k"
      unfolding tw by simp
    have mn: "m < n" using "2.prems"(4) unfolding k by simp
    let ?x = "push_bit 4 (int (of_char d) - hex_digit d)"
    let ?val = "val[m := of_int (?x OR (int (of_char d2) - hex_digit d2))]"
    have step: "hex_loop val n m (d # data) = hex_loop ?val n (m + 1) data2"
      using hd hd2 mn data "2.prems"(2) by (simp add: is_hex_def Let_def)
    have ih: "hex_loop ?val n (m + 1) data2 =
        Inr (True, take (m + 1) ?val @ hex_bytes (takeWhile is_hex data2) @ drop (m + 1 + ?k) ?val,
             m + 1 + ?k, dropWhile is_hex data2)"
    proof (rule "2.IH" [OF _ _ refl data])
      show "hex_digit d \<noteq> 0" using hd by (simp add: is_hex_def)
      show "m \<noteq> n" using mn by simp
      show "hex_digit d2 \<noteq> 0" using hd2 by (simp add: is_hex_def)
      show "m < length val" using mn "2.prems"(2) by simp
      show "m + 1 \<le> n" using mn by simp
      show "length ?val = n" using "2.prems"(2) by simp
      show "even (length (takeWhile is_hex data2))" using "2.prems"(3) unfolding tw by simp
      show "m + 1 + ?k \<le> n" using "2.prems"(4) unfolding k by simp
    qed
    have t: "take (m + 1) ?val = take m val @ [of_nat (16 * hex_val d + hex_val d2)]"
      using mn "2.prems"(2) hex_byte_eq [OF hd hd2] by (simp add: take_Suc_conv_app_nth)
    have d: "drop (m + 1 + ?k) ?val = drop (m + 1 + ?k) val"
      by simp
    show ?thesis
      unfolding step ih t d tw dw k by simp
  qed
qed

lemma hex_loop_fails:
  assumes "m \<le> n" "length val = n"
    and "\<not> (even (length (takeWhile is_hex data)) \<and> m + length (takeWhile is_hex data) div 2 \<le> n)"
  shows "\<exists>v m' r. hex_loop val n m data = Inr (False, v, m', r)"
  using assms
proof (induction val n m data rule: hex_loop.induct)
  case (1 val n m)
  then show ?case by simp
next
  case (2 val n m d data)
  show ?case
  proof (cases "is_hex d")
    case False
    with "2.prems" show ?thesis by simp
  next
    case hd: True
    show ?thesis
    proof (cases "m = n")
      case True
      with hd show ?thesis by (simp add: is_hex_def)
    next
      case mn: False
      show ?thesis
      proof (cases data)
        case Nil
        with hd mn show ?thesis by (simp add: is_hex_def)
      next
        case (Cons d2 data2)
        show ?thesis
        proof (cases "is_hex d2")
          case False
          with hd mn Cons show ?thesis by (simp add: is_hex_def)
        next
          case hd2: True
          let ?x = "push_bit 4 (int (of_char d) - hex_digit d)"
          let ?val = "val[m := of_int (?x OR (int (of_char d2) - hex_digit d2))]"
          have lt: "m < n" using mn "2.prems"(1) by simp
          have step: "hex_loop val n m (d # data) = hex_loop ?val n (m + 1) data2"
            using hd hd2 lt Cons "2.prems"(2) by (simp add: is_hex_def Let_def)
          have "\<exists>v m' r. hex_loop ?val n (m + 1) data2 = Inr (False, v, m', r)"
          proof (rule "2.IH" [OF _ _ refl Cons])
            show "hex_digit d \<noteq> 0" using hd by (simp add: is_hex_def)
            show "m \<noteq> n" using mn by simp
            show "hex_digit d2 \<noteq> 0" using hd2 by (simp add: is_hex_def)
            show "m < length val" using lt "2.prems"(2) by simp
            show "m + 1 \<le> n" using lt by simp
            show "length ?val = n" using "2.prems"(2) by simp
            show "\<not> (even (length (takeWhile is_hex data2)) \<and>
                     m + 1 + length (takeWhile is_hex data2) div 2 \<le> n)"
              using "2.prems"(3) hd hd2 Cons by simp
          qed
          then show ?thesis unfolding step .
        qed
      qed
    qed
  qed
qed


lemma takeWhile_hex_append:
  assumes "\<forall>d\<in>set ds. is_hex d" "rest = [] \<or> \<not> is_hex (hd rest)"
  shows "takeWhile is_hex (ds @ rest) = ds" "dropWhile is_hex (ds @ rest) = rest"
  using assms by (cases rest; simp add: takeWhile_append2 dropWhile_append2)+

lemma length_hex_bytes: "length (hex_bytes ds) = length ds div 2"
  by (induction ds rule: hex_bytes.induct) simp_all

text \<open>
  C6. Let the array at \<open>value\<close> have \<open>n\<close> bytes and let the text be a run \<open>ds\<close> of hex
  digits followed by \<open>rest\<close>, which does not start with a hex digit. If \<open>ds\<close> is \<open>m\<close>
  pairs with \<open>1 \<le> m \<le> n\<close> and \<open>only\<close> accepts \<open>rest\<close>, \<open>parse_hex\<close> returns 1 and the
  array holds \<open>n - m\<close> zero bytes followed by the \<open>m\<close> decoded bytes (size 4 and
  \<open>ab12\<close> give \<open>00 00 AB 12\<close>). If the number of digits is odd or zero, or there are
  more than \<open>n\<close> pairs, it returns 0.
\<close>

theorem parse_hex_right_aligned:
  assumes "length val = n" "\<forall>d\<in>set ds. is_hex d" "rest = [] \<or> \<not> is_hex (hd rest)"
  shows "(length ds = 2 * m \<and> 1 \<le> m \<and> m \<le> n \<and> only rest \<longrightarrow>
            parse_hex only val n (ds @ rest) = Inr (1, replicate (n - m) 0 @ hex_bytes ds)) \<and>
         (odd (length ds) \<or> ds = [] \<or> n < length ds div 2 \<longrightarrow>
            (\<exists>v. parse_hex only val n (ds @ rest) = Inr (0, v)))"
proof (intro conjI impI)
  note tw = takeWhile_hex_append [OF assms(2,3)]
  assume a: "length ds = 2 * m \<and> 1 \<le> m \<and> m \<le> n \<and> only rest"
  have loop: "hex_loop val n 0 (ds @ rest) = Inr (True, hex_bytes ds @ drop m val, m, rest)"
    using hex_loop_complete [of 0 n val "ds @ rest"] assms(1) a unfolding tw by simp
  have len: "length (hex_bytes ds) = m" using a by (simp add: length_hex_bytes)
  show "parse_hex only val n (ds @ rest) = Inr (1, replicate (n - m) 0 @ hex_bytes ds)"
  proof (cases "n - m = 0")
    case True
    with a assms(1) len show ?thesis by (simp add: parse_hex_def loop)
  next
    case False
    with a assms(1) len show ?thesis
      by (simp add: parse_hex_def loop memmove_up_def memset0_def Let_def)
  qed
next
  note tw = takeWhile_hex_append [OF assms(2,3)]
  assume b: "odd (length ds) \<or> ds = [] \<or> n < length ds div 2"
  show "\<exists>v. parse_hex only val n (ds @ rest) = Inr (0, v)"
  proof (cases "ds = []")
    case True
    have "hex_loop val n 0 (ds @ rest) = Inr (True, val, 0, rest)"
      using hex_loop_complete [of 0 n val "ds @ rest"] assms(1) True unfolding tw by simp
    then show ?thesis by (simp add: parse_hex_def)
  next
    case False
    with b have "\<not> (even (length ds) \<and> 0 + length ds div 2 \<le> n)" by auto
    then obtain v m' r where "hex_loop val n 0 (ds @ rest) = Inr (False, v, m', r)"
      using hex_loop_fails [of 0 n val "ds @ rest"] assms(1) unfolding tw by auto
    then show ?thesis by (simp add: parse_hex_def)
  qed
qed

theorem parse_hex_right_aligned_witness:
  "parse_hex at_end [1, 2, 3, 4] 4 ''ab12'' = Inr (1, [0x00, 0x00, 0xAB, 0x12]) \<and>
   (\<exists>v. parse_hex at_end [1, 2, 3, 4] 4 ''ab1'' = Inr (0, v))"
proof -
  have r: "replicate (4 - 2) (0 :: u8) = [0, 0]"
    by (simp add: numeral_2_eq_2)
  have "parse_hex at_end [1, 2, 3, 4] 4 (''ab12'' @ []) =
      Inr (1, replicate (4 - 2) 0 @ hex_bytes ''ab12'')"
    using parse_hex_right_aligned [of "[1, 2, 3, 4]" 4 "''ab12''" "[]" 2 at_end]
    by (simp add: is_hex_def hex_digit_def at_end_def)
  moreover have "\<exists>v. parse_hex at_end [1, 2, 3, 4] 4 (''ab1'' @ []) = Inr (0, v)"
    using parse_hex_right_aligned [of "[1, 2, 3, 4]" 4 "''ab1''" "[]" 2 at_end]
    by (simp add: is_hex_def hex_digit_def)
  ultimately show ?thesis
    unfolding r by (simp add: hex_val_def hex_digit_def)
qed



section \<open>Properties of the DER device code\<close>

lemma foldl_copy_field:
  "foldl (\<lambda>a f. copy_field xb a b f) a fs =
     a\<lparr>field := (\<lambda>f. if f \<in> set fs \<and> se_exists xb b f then field b f else field a f)\<rparr>"
proof (induction fs arbitrary: a)
  case Nil
  show ?case by simp
next
  case (Cons g fs)
  show ?case unfolding foldl_Cons Cons by (auto simp: copy_field_def fun_eq_iff)
qed

lemma foldl_copy_boolean:
  assumes "\<forall>f\<in>set fs. se_true tb b f \<longrightarrow> bit (flags a) (tb f)"
  shows "foldl (\<lambda>a f. copy_boolean tb a b f) a fs = a"
  using assms
proof (induction fs arbitrary: a)
  case Nil
  show ?case by simp
next
  case (Cons g fs)
  have "copy_boolean tb a b g = a"
  proof (cases "se_true tb b g")
    case True
    with Cons.prems have "bit (flags a) (tb g)" by simp
    then have "flags a OR push_bit (tb g) 1 = flags a"
      by (intro bit_eqI) (auto simp: bit_or_iff bit_push_bit_iff bit_1_iff bit_exp_iff)
    with True show ?thesis by (simp add: copy_boolean_def se_set_true_def)
  next
    case False
    then show ?thesis by (simp add: copy_boolean_def)
  qed
  with Cons show ?case by simp
qed

text \<open>
  C10. \<open>copy_der_base (a, b, mask)\<close> returns with \<open>b\<close> as it was (its \<open>_flags\<close> are
  restored). In \<open>a\<close>, \<open>_flags\<close> becomes the old \<open>_flags\<close> OR \<open>mask\<close> (a boolean that is
  true in \<open>b\<close> under the mask only sets a bit of the mask), and a field is overwritten
  with that of \<open>b\<close> exactly when it is one of the 24 valued fields, \<open>b\<close> has it and the
  mask selects its flag; every other field of \<open>a\<close> keeps its value.
\<close>

theorem copy_der_base_frame:
  "copy_der_base xb tb a b msk =
     (a\<lparr>flags := flags a OR msk,
        field := (\<lambda>f. if f \<in> set der_values \<and> bit (flags b AND msk) (xb f)
                      then field b f else field a f)\<rparr>, b)"
proof -
  let ?b1 = "b\<lparr>flags := flags b AND msk\<rparr>"
  let ?a1 = "a\<lparr>flags := flags a OR msk\<rparr>"
  have bool: "foldl (\<lambda>a f. copy_boolean tb a ?b1 f) ?a1 der_booleans = ?a1"
    by (rule foldl_copy_boolean) (simp add: se_true_def bit_simps)
  have "copy_der_base xb tb a b msk = (foldl (\<lambda>a f. copy_field xb a ?b1 f) ?a1 der_values, b)"
    by (simp add: copy_der_base_def Let_def bool)
  also have "foldl (\<lambda>a f. copy_field xb a ?b1 f) ?a1 der_values =
      a\<lparr>flags := flags a OR msk,
        field := (\<lambda>f. if f \<in> set der_values \<and> bit (flags b AND msk) (xb f)
                      then field b f else field a f)\<rparr>"
    unfolding foldl_copy_field by (simp add: se_exists_def cong: if_cong)
  finally show ?thesis .
qed

lemma disjoint_masks_append:
  "disjoint_masks (xs @ ys) =
     (disjoint_masks xs \<and> disjoint_masks ys \<and> (\<forall>x\<in>set xs. \<forall>y\<in>set ys. x AND y = 0))"
  by (induction xs) auto

lemma disjoint_masks_rev: "disjoint_masks (rev xs) = disjoint_masks xs"
  by (induction xs) (auto simp: disjoint_masks_append and.commute)

lemma disjoint_masks_nth:
  "disjoint_masks xs \<Longrightarrow> i < j \<Longrightarrow> j < length xs \<Longrightarrow> xs ! i AND xs ! j = 0"
proof (induction xs arbitrary: i j)
  case Nil
  then show ?case by simp
next
  case (Cons x xs)
  show ?case
  proof (cases i)
    case 0
    with Cons.prems show ?thesis by (cases j) auto
  next
    case (Suc i')
    with Cons.prems obtain j' where "j = Suc j'" by (cases j) auto
    with Suc Cons show ?thesis by auto
  qed
qed

lemma bit_foldl_or:
  "bit (foldl (\<lambda>m x. m OR f x) (m0 :: u32) xs) k \<longleftrightarrow> bit m0 k \<or> (\<exists>x\<in>set xs. bit (f x) k)"
  by (induction xs arbitrary: m0) (auto simp: bit_or_iff)

lemma and_zero_left:
  fixes x y z :: u32
  assumes "y AND z = 0"
  shows "(x AND y) AND z = 0"
proof -
  have "(x AND y) AND z = x AND (y AND z)" by (simp add: and.assoc)
  with assms show ?thesis by simp
qed

lemma and_zero_right:
  fixes x y z :: u32
  assumes "y AND z = 0"
  shows "y AND (z AND x) = 0"
proof -
  have "y AND (z AND x) = (y AND z) AND x" by (simp add: and.assoc)
  with assms show ?thesis by simp
qed

lemma and_not_self:
  fixes f m :: u32
  shows "(f AND m) AND (m AND NOT f) = 0"
  by (rule bit_eqI) (auto simp: bit_and_iff bit_not_iff)

lemma defaults_loop_disjoint:
  assumes "defaults_loop st l msk m evs = (m', evs')"
    and "\<forall>n\<in>set m. dc_active n AND msk = 0"
    and "\<forall>n\<in>set m. dc_active n AND a = 0"
    and "msk AND a = 0"
    and "disjoint_masks (map dc_active m)"
  shows "(\<forall>n\<in>set m'. dc_active n AND a = 0) \<and> disjoint_masks (map dc_active m')"
  using assms
proof (induction st l msk m evs rule: defaults_loop.induct)
  case (1 st msk m evs)
  then show ?case by simp
next
  case (2 st p l msk m evs)
  show ?case
  proof (cases "msk = 0")
    case True
    with "2.prems" show ?thesis by simp
  next
    case nz: False
    show ?thesis
    proof (cases "default_control st p")
      case None
      with nz "2.prems" "2.IH"(1) show ?thesis by simp
    next
      case (Some dd)
      let ?flags = "se_flags st dd"
      let ?act = "?flags AND msk"
      show ?thesis
      proof (cases "?act = 0")
        case True
        with nz Some "2.prems" "2.IH"(3) [OF nz Some refl refl] show ?thesis by simp
      next
        case act: False
        let ?msk1 = "msk AND NOT ?flags"
        let ?m1 = "insert_default m dd (dev_addr st) ?act"
        let ?evs1 = "if \<not> find_by_data (map dderc (defaults (dev st))) dd
                     then evs @ [(hd ?m1, DEFAULT_START)] else evs"
        from "2.prems"(1) nz Some act
        have run: "defaults_loop st l ?msk1 ?m1 ?evs1 = (m', evs')"
          by (simp add: Let_def)
        have a1: "\<forall>n\<in>set ?m1. dc_active n AND ?msk1 = 0"
        proof
          fix n assume "n \<in> set ?m1"
          then consider "n = \<lparr>dderc = dd, dc_context = dev_addr st, dc_active = ?act\<rparr>" | "n \<in> set m"
            by (auto simp: insert_default_def)
          then show "dc_active n AND ?msk1 = 0"
          proof cases
            case 1
            have "(?flags AND msk) AND (msk AND NOT ?flags) = 0"
              by (rule and_not_self)
            with 1 show ?thesis by simp
          next
            case 2
            with "2.prems"(2) have "dc_active n AND msk = 0" by simp
            then show ?thesis by (rule and_zero_right)
          qed
        qed
        have a2: "\<forall>n\<in>set ?m1. dc_active n AND a = 0"
        proof
          fix n assume "n \<in> set ?m1"
          then consider "n = \<lparr>dderc = dd, dc_context = dev_addr st, dc_active = ?act\<rparr>" | "n \<in> set m"
            by (auto simp: insert_default_def)
          then show "dc_active n AND a = 0"
          proof cases
            case 1
            from "2.prems"(4) have "(?flags AND msk) AND a = 0" by (rule and_zero_left)
            with 1 show ?thesis by simp
          next
            case 2
            with "2.prems"(3) show ?thesis by simp
          qed
        qed
        have a3: "?msk1 AND a = 0"
        proof -
          have "?msk1 AND a = NOT ?flags AND (msk AND a)"
            by (simp add: and.assoc and.left_commute and.commute)
          with "2.prems"(4) show ?thesis by simp
        qed
        have a4: "disjoint_masks (map dc_active ?m1)"
        proof -
          have "\<forall>y\<in>set (map dc_active m). ?act AND y = 0"
          proof
            fix y assume "y \<in> set (map dc_active m)"
            with "2.prems"(2) have "y AND msk = 0" by auto
            then have "y AND (msk AND ?flags) = 0" by (rule and_zero_right)
            then show "?act AND y = 0" by (simp add: and.commute)
          qed
          with "2.prems"(5) show ?thesis by (simp add: insert_default_def)
        qed
        from "2.IH"(2) [OF nz Some refl refl act refl refl refl run a1 a2 a3 a4]
        show ?thesis .
      qed
    qed
  qed
qed

text \<open>
  C8. After \<open>update_defaults (s)\<close>, with \<open>d = s->context\<close>: \<open>d->active\<close> is the union
  of \<open>eb->der\<close> over the event blocks of \<open>s->active\<close>; the \<open>active\<close> mask of every node
  of \<open>d->defaults\<close> is disjoint from \<open>d->active\<close>; and the \<open>active\<close> masks of two
  different nodes of \<open>d->defaults\<close> are disjoint.
\<close>

theorem update_defaults_disjoint:
  "(\<forall>k. bit (d_active (dev (update_defaults st))) k \<longleftrightarrow>
         (\<exists>eb\<in>set (active (sched st)). bit (der (block_at st eb)) k)) \<and>
   (\<forall>n\<in>set (defaults (dev (update_defaults st))).
       dc_active n AND d_active (dev (update_defaults st)) = 0) \<and>
   (\<forall>i j. i < j \<and> j < length (defaults (dev (update_defaults st))) \<longrightarrow>
       dc_active (defaults (dev (update_defaults st)) ! i) AND
       dc_active (defaults (dev (update_defaults st)) ! j) = 0)"
proof -
  let ?msk0 = "foldl (\<lambda>msk eb. msk OR der (block_at st eb)) 0 (active (sched st))"
  let ?st1 = "st\<lparr>dev := (dev st)\<lparr>d_active := ?msk0\<rparr>\<rparr>"
  obtain m evs where run: "defaults_loop ?st1 (derpl (dev st)) (NOT ?msk0) [] (events st) = (m, evs)"
    by (cases "defaults_loop ?st1 (derpl (dev st)) (NOT ?msk0) [] (events st)")
  have d: "d_active (dev (update_defaults st)) = ?msk0"
    and ds: "defaults (dev (update_defaults st)) = rev m"
    using run by (simp_all add: update_defaults_def Let_def)
  have inv: "(\<forall>n\<in>set m. dc_active n AND ?msk0 = 0) \<and> disjoint_masks (map dc_active m)"
    by (rule defaults_loop_disjoint [OF run]) simp_all
  have "disjoint_masks (map dc_active (rev m))"
    using inv by (simp add: rev_map [symmetric] disjoint_masks_rev)
  then have nth: "\<And>i j. i < j \<Longrightarrow> j < length (rev m) \<Longrightarrow>
      dc_active (rev m ! i) AND dc_active (rev m ! j) = 0"
    using disjoint_masks_nth [of "map dc_active (rev m)"] by fastforce
  show ?thesis
    unfolding d ds using inv nth by (auto simp: bit_foldl_or)
qed


theorem update_defaults_disjoint_witness:
  "d_active (dev (update_defaults example_memory)) = 3 \<and>
   map dc_active (defaults (dev (update_defaults example_memory))) = [4, 8] \<and>
   dc_active (defaults (dev (update_defaults example_memory)) ! 0) AND
     dc_active (defaults (dev (update_defaults example_memory)) ! 1) = 0 \<and>
   dc_active (defaults (dev (update_defaults example_memory)) ! 0) AND
     d_active (dev (update_defaults example_memory)) = 0"
  using update_defaults_disjoint [of example_memory]
  by (simp add: update_defaults_def example_memory_def example_block_at_def example_default_def
      example_flags_def insert_default_def find_by_data_def list_subtract_def Let_def)

lemma remove_step_block_at:
  "block_at (remove_step D st e) b =
     (if b = e \<and> program (block_at st e) \<in> set D then (block_at st e)\<lparr>status := Aborted\<rparr>
      else block_at st b)"
  by (simp add: remove_step_def remove_block_def device_response_def find_by_data_def Let_def)

lemma remove_step_sched:
  "sched (remove_step D st e) =
     (if program (block_at st e) \<in> set D
      then (sched st)\<lparr>scheduled := filter (\<lambda>b. b \<noteq> e) (scheduled (sched st)),
                       active := filter (\<lambda>b. b \<noteq> e) (active (sched st)),
                       superseded := filter (\<lambda>b. b \<noteq> e) (superseded (sched st))\<rparr>
      else sched st)"
  by (simp add: remove_step_def remove_block_def device_response_def find_by_data_def Let_def)

lemma remove_step_responses:
  "responses (remove_step D st e) =
     responses st @
       (if program (block_at st e) \<in> set D \<and> status (block_at st e) = Active
        then [(device (sched st), event (block_at st e), EventAbortedProgram)] else [])"
  by (simp add: remove_step_def remove_block_def device_response_def find_by_data_def Let_def)

lemma remove_step_rest:
  "dev (remove_step D st e) = dev st \<and> events (remove_step D st e) = events st"
  by (simp add: remove_step_def remove_block_def device_response_def find_by_data_def Let_def)

lemma foldl_remove_step:
  assumes "distinct es"
  shows "block_at (foldl (remove_step D) st es) =
           (\<lambda>b. if removed D st es b then (block_at st b)\<lparr>status := Aborted\<rparr> else block_at st b) \<and>
         sched (foldl (remove_step D) st es) =
           (sched st)\<lparr>scheduled := filter (\<lambda>b. \<not> removed D st es b) (scheduled (sched st)),
                      active := filter (\<lambda>b. \<not> removed D st es b) (active (sched st)),
                      superseded := filter (\<lambda>b. \<not> removed D st es b) (superseded (sched st))\<rparr> \<and>
         responses (foldl (remove_step D) st es) =
           responses st @
             map (\<lambda>b. (device (sched st), event (block_at st b), EventAbortedProgram))
               (filter (\<lambda>b. program (block_at st b) \<in> set D \<and> status (block_at st b) = Active) es)"
  using assms
proof (induction es arbitrary: st)
  case Nil
  show ?case by (simp add: removed_def)
next
  case (Cons e es)
  let ?st1 = "remove_step D st e"
  from Cons.prems have ne: "e \<notin> set es" and dist: "distinct es" by simp_all
  have same: "\<And>b. b \<in> set es \<Longrightarrow> block_at ?st1 b = block_at st b"
    using ne by (auto simp: remove_step_block_at)
  have prog: "\<And>b. program (block_at ?st1 b) = program (block_at st b)"
    by (simp add: remove_step_block_at)
  have rem1: "\<And>b. removed D ?st1 es b = (b \<in> set es \<and> program (block_at st b) \<in> set D)"
    by (simp add: removed_def prog)
  have rem: "\<And>b. removed D st (e # es) b =
      ((b = e \<and> program (block_at st e) \<in> set D) \<or> removed D ?st1 es b)"
    by (auto simp: removed_def prog)
  note ih = Cons.IH [OF dist, of ?st1]
  have blk: "block_at (foldl (remove_step D) st (e # es)) =
      (\<lambda>b. if removed D st (e # es) b then (block_at st b)\<lparr>status := Aborted\<rparr> else block_at st b)"
  proof
    fix b
    show "block_at (foldl (remove_step D) st (e # es)) b =
      (if removed D st (e # es) b then (block_at st b)\<lparr>status := Aborted\<rparr> else block_at st b)"
      using ih ne by (auto simp: rem rem1 remove_step_block_at)
  qed
  have flt: "(\<lambda>x. x \<noteq> e \<and> \<not> removed D ?st1 es x) = (\<lambda>b. \<not> removed D st (e # es) b)"
    if "program (block_at st e) \<in> set D"
    using that by (auto simp: rem fun_eq_iff)
  have flt2: "(\<lambda>b. \<not> removed D ?st1 es b) = (\<lambda>b. \<not> removed D st (e # es) b)"
    if "program (block_at st e) \<notin> set D"
    using that by (auto simp: rem fun_eq_iff)
  have sch: "sched (foldl (remove_step D) st (e # es)) =
      (sched st)\<lparr>scheduled := filter (\<lambda>b. \<not> removed D st (e # es) b) (scheduled (sched st)),
                 active := filter (\<lambda>b. \<not> removed D st (e # es) b) (active (sched st)),
                 superseded := filter (\<lambda>b. \<not> removed D st (e # es) b) (superseded (sched st))\<rparr>"
  proof (cases "program (block_at st e) \<in> set D")
    case True
    with ih show ?thesis by (simp add: remove_step_sched flt [OF True])
  next
    case False
    with ih show ?thesis by (simp add: remove_step_sched flt2 [OF False])
  qed
  have fc: "filter (\<lambda>b. program (block_at ?st1 b) \<in> set D \<and> status (block_at ?st1 b) = Active) es =
      filter (\<lambda>b. program (block_at st b) \<in> set D \<and> status (block_at st b) = Active) es"
    by (rule filter_cong) (simp_all add: same)
  have mc: "map (\<lambda>b. (device (sched ?st1), event (block_at ?st1 b), EventAbortedProgram))
        (filter (\<lambda>b. program (block_at st b) \<in> set D \<and> status (block_at st b) = Active) es) =
      map (\<lambda>b. (device (sched st), event (block_at st b), EventAbortedProgram))
        (filter (\<lambda>b. program (block_at st b) \<in> set D \<and> status (block_at st b) = Active) es)"
    by (rule map_cong) (auto simp: same remove_step_sched)
  have rsp: "responses (foldl (remove_step D) st (e # es)) =
      responses st @
        map (\<lambda>b. (device (sched st), event (block_at st b), EventAbortedProgram))
          (filter (\<lambda>b. program (block_at st b) \<in> set D \<and> status (block_at st b) = Active) (e # es))"
    using ih by (simp add: fc mc remove_step_responses)
  from blk sch rsp show ?case by blast
qed


text \<open>
  C7. Let \<open>derpl\<close> be a non-empty list of removed programs, and let the hash table of
  the schedule hold the event blocks \<open>es\<close>, each once. \<open>remove_programs (s, derpl)\<close>
  takes exactly the blocks whose program is in \<open>derpl\<close> out of the lists of the
  schedule and sets their status to Aborted; it issues a \<open>device_response\<close> with the
  reason \<open>EventAbortedProgram\<close> for exactly those of them that were Active, in the
  order of the table; every other block, and its place in the lists, is as before.
\<close>

theorem remove_programs_aborts:
  assumes "derpl0 \<noteq> []" "hash_elems (blocks (sched st)) = Inr es" "distinct es"
  shows "\<exists>st'. remove_programs st derpl0 = Inr st' \<and>
     (\<forall>b. block_at st' b =
        (if removed derpl0 st es b then (block_at st b)\<lparr>status := Aborted\<rparr> else block_at st b)) \<and>
     scheduled (sched st') = filter (\<lambda>b. \<not> removed derpl0 st es b) (scheduled (sched st)) \<and>
     active (sched st') = filter (\<lambda>b. \<not> removed derpl0 st es b) (active (sched st)) \<and>
     superseded (sched st') = filter (\<lambda>b. \<not> removed derpl0 st es b) (superseded (sched st)) \<and>
     blocks (sched st') = blocks (sched st) \<and> device (sched st') = device (sched st) \<and>
     responses st' = responses st @
       map (\<lambda>b. (device (sched st), event (block_at st b), EventAbortedProgram))
         (filter (\<lambda>b. removed derpl0 st es b \<and> status (block_at st b) = Active) es)"
proof -
  have run: "remove_programs st derpl0 = Inr (foldl (remove_step derpl0) st es)"
    using assms(1,2) by (simp add: remove_programs_def)
  note f = foldl_remove_step [OF assms(3), of derpl0 st]
  have fc: "filter (\<lambda>b. program (block_at st b) \<in> set derpl0 \<and> status (block_at st b) = Active) es =
      filter (\<lambda>b. removed derpl0 st es b \<and> status (block_at st b) = Active) es"
    by (rule filter_cong) (auto simp: removed_def)
  show ?thesis
    unfolding run using f by (simp add: fc)
qed

lemma example_elems: "hash_elems example_blocks = Inr [2, 1]"
  by (simp add: hash_elems_def hash_iterate_def hash_next_def example_blocks_def scan.simps
      sg_count_def hash_rest.simps Let_def)

theorem remove_programs_aborts_witness:
  "\<exists>st'. remove_programs example_memory [10] = Inr st' \<and>
     status (block_at st' 1) = Aborted \<and> block_at st' 2 = block_at example_memory 2 \<and>
     active (sched st') = [] \<and> scheduled (sched st') = [2] \<and>
     responses st' = [(7, 101, EventAbortedProgram)]"
proof -
  have d: "distinct [2 :: nat, 1]" by simp
  have e: "hash_elems (blocks (sched example_memory)) = Inr [2, 1]"
    by (simp add: example_memory_def example_elems)
  from remove_programs_aborts [OF _ e d, of "[10]"] show ?thesis
    by (auto simp: removed_def example_memory_def example_block_at_def)
qed

section \<open>Runs of the hash table\<close>

text \<open>
  C1 (the code departs from the claim). A \<open>hash_put\<close> that finds \<open>items == max\<close>
  calls \<open>hash_resize\<close>, which leaves \<open>ht->g\<close> and \<open>ht->i\<close> on the slot of the last item
  it put into the new table; \<open>hash_insert\<close> then stores the new item at that slot, not
  at the slot of its own key. On the table of \<open>new_int64_hash (2, ...)\<close>, after
  \<open>hash_put\<close> of an item with key 1 and of an item with key 2, \<open>hash_get\<close> returns NULL
  for key 2, and for key 1 as well.
\<close>

theorem hash_put_then_get_after_resize:
  "returned (then_r (hash_puts (new_int64_hash 2 fst) [(1, 10 :: nat), (2, 20)]) (\<lambda>h. hash_get h 2))
     = Some (Inr None) \<and>
   returned (then_r (hash_puts (new_int64_hash 2 fst) [(1, 10 :: nat), (2, 20)]) (\<lambda>h. hash_get h 1))
     = Some (Inr None)"
  by code_simp

text \<open>
  C9 (the code departs from the claim). \<open>hash_delete\<close> decrements \<open>ht->items\<close>
  after \<open>hash_resize\<close>, whose \<open>hash_init\<close> has set it to 0 and whose puts have counted
  the items that are left. The scenario at a thousandth of its size: ten items with
  the keys 1 to 10 are put into the table of \<open>new_int64_hash (16, ...)\<close> and every
  other key is deleted; the fifth delete finds \<open>items == min\<close> and halves the table.
  \<open>foreach_h\<close> visits the five items that are left, and \<open>ht->items\<close> is 4.
\<close>

theorem hash_items_after_down_resize:
  "counted (then_r (hash_puts (new_int64_hash 16 fst)
      [(1, 1 :: nat), (2, 2), (3, 3), (4, 4), (5, 5), (6, 6), (7, 7), (8, 8), (9, 9), (10, 10)])
      (\<lambda>h. hash_deletes h [1, 3, 5, 7, 9]))
   = Some (Inr (4, Inr [(4, 4), (6, 6), (8, 8), (2, 2), (10, 10)]))"
  by code_simp


end
